theory Spec2Isabelle
  imports Main "HOL-Library.AList"
begin

section \<open>Values, exceptions and inputs\<close>

text \<open>
  The ranking path of \<^verbatim>\<open>app.py\<close> handles the values that Python's \<^verbatim>\<open>json\<close> module
  produces and that the fallback literals build: \<^verbatim>\<open>None\<close>, booleans, integers, floats,
  strings, lists and dictionaries. A dictionary keeps its keys in insertion order, so it is
  an association list with distinct keys. A string is the list of the bytes of its UTF-8
  encoding; the characters the code searches for (the two braces) are ASCII, so the
  substring between them is the same whether positions count bytes or code points.
\<close>

datatype pyfloat = Decimal int int | NaN | PosInfinity | NegInfinity

datatype json =
    JNull
  | JBool bool
  | JInt int
  | JFloat pyfloat
  | JString string
  | JArray "json list"
  | JObject "(string \<times> json) list"

text \<open>
  Every exception the ranking path can meet is an instance of \<^verbatim>\<open>Exception\<close>. The code
  tells \<^verbatim>\<open>json.JSONDecodeError\<close> from all the others (a \<^verbatim>\<open>RecursionError\<close> on deep
  nesting, a \<^verbatim>\<open>ValueError\<close> on an integer literal beyond the digit limit, ...).
\<close>

datatype exn = JSONDecodeError | OtherException

text \<open>
  An uploaded file has a name and a byte stream. The body of the \<^verbatim>\<open>try\<close> block of
  \<^verbatim>\<open>extract_text_from_pdf\<close> consists of library calls on that stream only
  (\<^verbatim>\<open>fitz.open\<close>, \<^verbatim>\<open>page.get_text\<close>, \<^verbatim>\<open>join\<close>, \<^verbatim>\<open>strip\<close>); \<open>fitz_text\<close> is its
  outcome: the stripped text, or the exception raised on the way.
\<close>

record uploaded_file =
  file_name :: string
  fitz_text :: "exn + string"

text \<open>The dictionary \<^verbatim>\<open>{"name": file.name, "content": content}\<close>.\<close>

record resume =
  name :: string
  content :: string

section \<open>String operations\<close>

text \<open>\<^verbatim>\<open>str.find\<close>: the lowest index of the character, or \<open>-1\<close>.\<close>

primrec str_find :: "string \<Rightarrow> char \<Rightarrow> int" where
  "str_find [] c = - 1"
| "str_find (x # xs) c =
     (if x = c then 0
      else (let r = str_find xs c in if r = - 1 then - 1 else r + 1))"

text \<open>\<^verbatim>\<open>str.rfind\<close>: the highest index of the character, or \<open>-1\<close>.\<close>

primrec str_rfind :: "string \<Rightarrow> char \<Rightarrow> int" where
  "str_rfind [] c = - 1"
| "str_rfind (x # xs) c =
     (let r = str_rfind xs c in
      if r \<noteq> - 1 then r + 1 else if x = c then 0 else - 1)"

text \<open>
  The slice \<^verbatim>\<open>s[a:b]\<close>: a negative bound counts from the end, both bounds are clipped
  to the string, and the slice is empty when the lower bound is not below the upper one.
\<close>

definition str_slice :: "string \<Rightarrow> int \<Rightarrow> int \<Rightarrow> string" where
  "str_slice s a b =
     (let n = int (length s);
          lo = (if a < 0 then max (a + n) 0 else min a n);
          hi = (if b < 0 then max (b + n) 0 else min b n)
      in take (nat (hi - lo)) (drop (nat lo) s))"

section \<open>Text extraction and the resume list\<close>

text \<open>
  \<^verbatim>\<open>extract_text_from_pdf\<close>: the handler of \<^verbatim>\<open>except Exception\<close> reports the error on
  the page and returns the empty string.
\<close>

definition extract_text_from_pdf :: "uploaded_file \<Rightarrow> exn + string" where
  "extract_text_from_pdf uploaded_file =
     (case fitz_text uploaded_file of
        Inr text \<Rightarrow> Inr text
      | Inl e \<Rightarrow> Inr [])"

text \<open>
  The first loop of \<^verbatim>\<open>process_bulk_resumes\<close>: a file whose extraction raises is
  reported and left out, every other file appends one record.
\<close>

primrec all_resumes :: "uploaded_file list \<Rightarrow> resume list" where
  "all_resumes [] = []"
| "all_resumes (file # files) =
     (case extract_text_from_pdf file of
        Inr text \<Rightarrow> \<lparr>name = file_name file, content = text\<rparr> # all_resumes files
      | Inl e \<Rightarrow> all_resumes files)"

section \<open>The fallback result\<close>

text \<open>
  The source writes the same dictionary literal four times (after a failed search for
  braces, after a failed parse of the substring, after a failed validation and in the
  outermost handler); \<open>fallback_rankings\<close> is that literal.
\<close>

definition fallback_entry :: "nat \<times> resume \<Rightarrow> json" where
  "fallback_entry p =
     (case p of (idx, resume) \<Rightarrow>
        JObject
          [(''resume_name'', JString (name resume)),
           (''match_percentage'', JInt 0),
           (''rank'', JInt (int idx + 1)),
           (''strengths'', JArray [JString ''Unable to analyze strengths'']),
           (''gaps'', JArray [JString ''Unable to analyze gaps''])])"

definition fallback_rankings :: "resume list \<Rightarrow> json" where
  "fallback_rankings resumes =
     JObject [(''rankings'', JArray (map fallback_entry (enumerate 0 resumes)))]"

section \<open>Parsing and validating the response\<close>

text \<open>
  \<^verbatim>\<open>json.loads\<close> belongs to Python's standard library, not to the repository: the
  functions below take it as the parameter \<open>loads\<close>, which returns the parsed value or
  the exception it raises.
\<close>

type_synonym loads_fun = "string \<Rightarrow> exn + json"

text \<open>
  The inner \<^verbatim>\<open>try\<close> block, entered when the direct parse raised
  \<^verbatim>\<open>json.JSONDecodeError\<close>. Its handler catches every \<^verbatim>\<open>Exception\<close>.
\<close>

definition extract_json :: "loads_fun \<Rightarrow> string \<Rightarrow> resume list \<Rightarrow> exn + json" where
  "extract_json loads response resumes =
     (let start_idx = str_find response (CHR ''{'');
          end_idx = str_rfind response (CHR ''}'') + 1
      in if start_idx \<noteq> - 1 \<and> end_idx \<noteq> 0 then
           (case loads (str_slice response start_idx end_idx) of
              Inr rankings \<Rightarrow> Inr rankings
            | Inl e \<Rightarrow> Inr (fallback_rankings resumes))
         else Inr (fallback_rankings resumes))"

text \<open>
  The \<^verbatim>\<open>try\<close> block around the direct parse: only \<^verbatim>\<open>json.JSONDecodeError\<close> is
  caught here, any other exception leaves the block.
\<close>

definition parse_response :: "loads_fun \<Rightarrow> string \<Rightarrow> resume list \<Rightarrow> exn + json" where
  "parse_response loads response resumes =
     (case loads response of
        Inr rankings \<Rightarrow> Inr rankings
      | Inl JSONDecodeError \<Rightarrow> extract_json loads response resumes
      | Inl OtherException \<Rightarrow> Inl OtherException)"

text \<open>\<^verbatim>\<open>isinstance(rankings, dict)\<close> and \<^verbatim>\<open>"rankings" in rankings\<close>.\<close>

fun is_dict :: "json \<Rightarrow> bool" where
  "is_dict (JObject kvs) = True"
| "is_dict v = False"

fun has_key :: "string \<Rightarrow> json \<Rightarrow> bool" where
  "has_key k (JObject kvs) = (k \<in> set (map fst kvs))"
| "has_key k v = False"

text \<open>The condition of the validation step, as the source writes it.\<close>

definition validation_fails :: "json \<Rightarrow> bool" where
  "validation_fails rankings =
     (\<not> is_dict rankings \<or> \<not> has_key ''rankings'' rankings)"

text \<open>
  The part of \<^verbatim>\<open>process_bulk_resumes\<close> that follows the call of the model: parse,
  validate, return; the outermost handler returns the fallback for every exception.
\<close>

definition normalize :: "loads_fun \<Rightarrow> string \<Rightarrow> resume list \<Rightarrow> exn + json" where
  "normalize loads response resumes =
     (case parse_response loads response resumes of
        Inr rankings \<Rightarrow>
          (if validation_fails rankings
           then Inr (fallback_rankings resumes)
           else Inr rankings)
      | Inl e \<Rightarrow> Inr (fallback_rankings resumes))"

section \<open>The whole ranking request\<close>

text \<open>
  The outcome of the \<^verbatim>\<open>try\<close> body of \<^verbatim>\<open>get_gemini_response\<close>, a call into the
  client library of the remote model: a response with a \<^verbatim>\<open>text\<close> attribute, a response
  without one, or an exception with the message \<^verbatim>\<open>str(e)\<close>.
\<close>

datatype gen_result = Text string | NoText | Raised string

text \<open>The bytes of the cross mark (U+274C) that starts both error messages.\<close>

definition cross_mark :: string where
  "cross_mark = [CHR 0xE2, CHR 0x9D, CHR 0x8C]"

definition get_gemini_response ::
  "(string list \<Rightarrow> gen_result) \<Rightarrow> string \<Rightarrow> string \<Rightarrow> string \<Rightarrow> string" where
  "get_gemini_response generate_content input_text pdf_content prompt =
     (case generate_content [input_text, pdf_content, prompt] of
        Text t \<Rightarrow> t
      | NoText \<Rightarrow> cross_mark @ '' Error: Unexpected response format from Gemini API.''
      | Raised msg \<Rightarrow> cross_mark @ '' API Error: '' @ msg)"

text \<open>The entry \<^verbatim>\<open>prompts["rank"]\<close>.\<close>

definition prompts_rank :: string where
  \<open>prompts_rank =
      ''You are an expert HR manager. Analyze the following resumes and rank them from best to worst match for the job description.'' @ [CHR 0x0A] @
      ''    For each resume, provide:'' @ [CHR 0x0A] @
      ''    1. Match percentage (0-100)'' @ [CHR 0x0A] @
      ''    2. Key strengths'' @ [CHR 0x0A] @
      ''    3. Major gaps'' @ [CHR 0x0A] @
      ''    4. Overall ranking (1 being best)'' @ [CHR 0x0A] @
      ''    '' @ [CHR 0x0A] @
      ''    Format your response as a JSON with the following structure:'' @ [CHR 0x0A] @
      ''    {'' @ [CHR 0x0A] @
      ''        "rankings": ['' @ [CHR 0x0A] @
      ''            {'' @ [CHR 0x0A] @
      ''                "resume_name": "filename.pdf",'' @ [CHR 0x0A] @
      ''                "match_percentage": 85,'' @ [CHR 0x0A] @
      ''                "rank": 1,'' @ [CHR 0x0A] @
      ''                "strengths": ["skill1", "skill2"],'' @ [CHR 0x0A] @
      ''                "gaps": ["gap1", "gap2"]'' @ [CHR 0x0A] @
      ''            }'' @ [CHR 0x0A] @
      ''        ]'' @ [CHR 0x0A] @
      ''    }''\<close>

text \<open>The prompt that the second loop of \<^verbatim>\<open>process_bulk_resumes\<close> builds.\<close>

definition combined_prompt :: "string \<Rightarrow> resume list \<Rightarrow> string" where
  "combined_prompt job_description resumes =
     foldl
       (\<lambda>p resume. p @ [CHR 0x0A] @ ''Resume: '' @ name resume @ [CHR 0x0A] @
          content resume @ [CHR 0x0A] @ ''---'' @ [CHR 0x0A])
       (''Job Description:'' @ [CHR 0x0A] @ job_description @ [CHR 0x0A, CHR 0x0A] @
          ''Resumes to analyze:'' @ [CHR 0x0A])
       resumes"

text \<open>
  \<^verbatim>\<open>process_bulk_resumes\<close>: \<open>Inr None\<close> is the returned \<^verbatim>\<open>None\<close>, \<open>Inr (Some r)\<close> a
  returned dictionary, \<open>Inl e\<close> an exception that leaves the function.
\<close>

definition process_bulk_resumes ::
  "(string list \<Rightarrow> gen_result) \<Rightarrow> loads_fun \<Rightarrow> string \<Rightarrow> uploaded_file list \<Rightarrow>
     exn + json option" where
  "process_bulk_resumes generate_content loads job_description uploaded_files =
     (let resumes = all_resumes uploaded_files in
      if resumes = [] then Inr None
      else
        (let response =
               get_gemini_response generate_content
                 (combined_prompt job_description resumes) [] prompts_rank
         in case normalize loads response resumes of
              Inr rankings \<Rightarrow> Inr (Some rankings)
            | Inl e \<Rightarrow> Inl e))"

section \<open>The decoder of the standard library\<close>

text \<open>
  The theorems about the normalizer hold for every \<open>loads\<close>. To run the normalizer on
  a concrete response, \<open>json_loads\<close> follows the decoder of Python's \<^verbatim>\<open>json\<close> package
  (\<^verbatim>\<open>json/decoder.py\<close>, \<^verbatim>\<open>json/scanner.py\<close>) with its default settings.
\<close>

text \<open>The whitespace of the decoder: space, tab, line feed, carriage return.\<close>

definition is_ws :: "char \<Rightarrow> bool" where
  "is_ws c = (c = CHR 0x20 \<or> c = CHR 0x09 \<or> c = CHR 0x0A \<or> c = CHR 0x0D)"

definition skip_ws :: "string \<Rightarrow> string" where
  "skip_ws s = dropWhile is_ws s"

text \<open>Decimal digits and the number they spell.\<close>

definition is_digit :: "char \<Rightarrow> bool" where
  "is_digit c = (48 \<le> (of_char c :: nat) \<and> (of_char c :: nat) \<le> 57)"

definition digits_val :: "string \<Rightarrow> nat" where
  "digits_val ds = foldl (\<lambda>a c. 10 * a + (of_char c - 48)) 0 ds"

text \<open>The four hexadecimal digits of a \<^verbatim>\<open>\u\<close> escape.\<close>

definition hex_val :: "char \<Rightarrow> nat option" where
  "hex_val c =
     (let n = (of_char c :: nat) in
      if 48 \<le> n \<and> n \<le> 57 then Some (n - 48)
      else if 97 \<le> n \<and> n \<le> 102 then Some (n - 87)
      else if 65 \<le> n \<and> n \<le> 70 then Some (n - 55)
      else None)"

definition hex4 :: "string \<Rightarrow> nat option" where
  "hex4 s =
     (case map hex_val (take 4 s) of
        [Some a, Some b, Some c, Some d] \<Rightarrow> Some (((a * 16 + b) * 16 + c) * 16 + d)
      | _ \<Rightarrow> None)"

text \<open>The UTF-8 bytes of a code point (a lone surrogate takes its three-byte form).\<close>

definition utf8 :: "nat \<Rightarrow> string" where
  "utf8 n =
     (if n < 0x80 then [char_of n]
      else if n < 0x800 then [char_of (0xC0 + n div 64), char_of (0x80 + n mod 64)]
      else if n < 0x10000 then
        [char_of (0xE0 + n div 4096), char_of (0x80 + n div 64 mod 64), char_of (0x80 + n mod 64)]
      else
        [char_of (0xF0 + n div 262144), char_of (0x80 + n div 4096 mod 64),
         char_of (0x80 + n div 64 mod 64), char_of (0x80 + n mod 64)])"

text \<open>The one-character escapes.\<close>

definition unescape :: "char \<Rightarrow> char option" where
  "unescape e =
     (if e = CHR 0x22 then Some (CHR 0x22)
      else if e = CHR 0x5C then Some (CHR 0x5C)
      else if e = CHR ''/'' then Some (CHR ''/'')
      else if e = CHR ''b'' then Some (CHR 0x08)
      else if e = CHR ''f'' then Some (CHR 0x0C)
      else if e = CHR ''n'' then Some (CHR 0x0A)
      else if e = CHR ''r'' then Some (CHR 0x0D)
      else if e = CHR ''t'' then Some (CHR 0x09)
      else None)"

text \<open>
  \<^verbatim>\<open>scanstring\<close> reads a string literal after its opening quote and returns the
  string with the input behind the closing quote. In strict mode a control character
  inside the literal is an error; a high surrogate escape followed by a low surrogate
  escape is one code point.
\<close>

definition prepend :: "string \<Rightarrow> exn + (string \<times> string) \<Rightarrow> exn + (string \<times> string)" where
  "prepend cs r = (case r of Inl e \<Rightarrow> Inl e | Inr (str, rest) \<Rightarrow> Inr (cs @ str, rest))"

fun scanstring :: "string \<Rightarrow> exn + (string \<times> string)" where
  "scanstring [] = Inl JSONDecodeError"
| "scanstring (c # cs) =
     (if c = CHR 0x22 then Inr ([], cs)
      else if c = CHR 0x5C then
        (case cs of
           [] \<Rightarrow> Inl JSONDecodeError
         | e # rest \<Rightarrow>
             if e = CHR ''u'' then
               (case hex4 rest of
                  None \<Rightarrow> Inl JSONDecodeError
                | Some hi \<Rightarrow>
                    if 0xD800 \<le> hi \<and> hi \<le> 0xDBFF \<and>
                       take 2 (drop 4 rest) = [CHR 0x5C, CHR ''u''] then
                      (case hex4 (drop 6 rest) of
                         None \<Rightarrow> Inl JSONDecodeError
                       | Some lo \<Rightarrow>
                           if 0xDC00 \<le> lo \<and> lo \<le> 0xDFFF then
                             prepend (utf8 (0x10000 + (hi - 0xD800) * 1024 + (lo - 0xDC00)))
                               (scanstring (drop 10 rest))
                           else prepend (utf8 hi) (scanstring (drop 4 rest)))
                    else prepend (utf8 hi) (scanstring (drop 4 rest)))
             else
               (case unescape e of
                  None \<Rightarrow> Inl JSONDecodeError
                | Some ch \<Rightarrow> prepend [ch] (scanstring rest)))
      else if (of_char c :: nat) < 0x20 then Inl JSONDecodeError
      else prepend [c] (scanstring cs))"

text \<open>
  The number pattern of the scanner: an optional minus, \<^verbatim>\<open>0\<close> or a nonzero digit with
  further digits, an optional fraction (a dot with at least one digit) and an optional
  exponent (with at least one digit). Without fraction and exponent the literal is an
  integer; otherwise it is a float, kept here as its decimal mantissa and exponent.
\<close>

definition match_number :: "string \<Rightarrow> (json \<times> string) option" where
  "match_number s =
     (let neg = (take 1 s = ''-'');
          s1 = (if neg then drop 1 s else s)
      in case s1 of
           [] \<Rightarrow> None
         | d # s2 \<Rightarrow>
             if \<not> is_digit d then None
             else
               (let ds = (if d = CHR ''0'' then [d] else d # takeWhile is_digit s2);
                    s3 = drop (length ds) s1;
                    fr = (if take 1 s3 = ''.'' then takeWhile is_digit (drop 1 s3) else []);
                    s4 = (if fr = [] then s3 else drop (Suc (length fr)) s3);
                    s5 = (if take 1 s4 = ''e'' \<or> take 1 s4 = ''E'' then drop 1 s4 else []);
                    eneg = (take 1 s5 = ''-'');
                    s6 = (if take 1 s5 = ''-'' \<or> take 1 s5 = ''+'' then drop 1 s5 else s5);
                    ex = takeWhile is_digit s6;
                    rest = (if ex = [] then s4 else drop (length ex) s6);
                    sgn = (\<lambda>k. if neg then - int k else int k)
                in if fr = [] \<and> ex = [] then Some (JInt (sgn (digits_val ds)), rest)
                   else
                     Some (JFloat (Decimal (sgn (digits_val (ds @ fr)))
                             ((if eneg then - int (digits_val ex) else int (digits_val ex))
                                - int (length fr))), rest)))"

text \<open>
  \<^verbatim>\<open>dict(pairs)\<close>: a repeated key keeps its first position and takes its last value.
\<close>

definition dict :: "(string \<times> json) list \<Rightarrow> (string \<times> json) list" where
  "dict pairs = foldl (\<lambda>d p. AList.update (fst p) (snd p) d) [] pairs"

text \<open>
  The scanner and the two container parsers call each other. The first argument bounds
  the number of nested calls; when it is used up the parser raises (Python raises
  \<^verbatim>\<open>RecursionError\<close> when its own bound is reached). \<open>JSONArray\<close> starts at the
  first element, \<open>JSONObject\<close> at the quote of the first key.
\<close>

fun scan_once :: "nat \<Rightarrow> string \<Rightarrow> exn + (json \<times> string)"
and JSONArray :: "nat \<Rightarrow> string \<Rightarrow> exn + (json list \<times> string)"
and JSONObject :: "nat \<Rightarrow> string \<Rightarrow> exn + ((string \<times> json) list \<times> string)"
where
  "scan_once 0 s = Inl OtherException"
| "scan_once (Suc n) s =
     (case s of
        [] \<Rightarrow> Inl JSONDecodeError
      | c # cs \<Rightarrow>
          if c = CHR 0x22 then
            (case scanstring cs of
               Inl e \<Rightarrow> Inl e
             | Inr (str, rest) \<Rightarrow> Inr (JString str, rest))
          else if c = CHR ''{'' then
            (case skip_ws cs of
               [] \<Rightarrow> Inl JSONDecodeError
             | c1 # r1 \<Rightarrow>
                 if c1 = CHR ''}'' then Inr (JObject [], r1)
                 else
                   (case JSONObject n (c1 # r1) of
                      Inl e \<Rightarrow> Inl e
                    | Inr (pairs, rest) \<Rightarrow> Inr (JObject (dict pairs), rest)))
          else if c = CHR ''['' then
            (case skip_ws cs of
               [] \<Rightarrow> Inl JSONDecodeError
             | c1 # r1 \<Rightarrow>
                 if c1 = CHR '']'' then Inr (JArray [], r1)
                 else
                   (case JSONArray n (c1 # r1) of
                      Inl e \<Rightarrow> Inl e
                    | Inr (values, rest) \<Rightarrow> Inr (JArray values, rest)))
          else if take 4 s = ''null'' then Inr (JNull, drop 4 s)
          else if take 4 s = ''true'' then Inr (JBool True, drop 4 s)
          else if take 5 s = ''false'' then Inr (JBool False, drop 5 s)
          else
            (case match_number s of
               Some r \<Rightarrow> Inr r
             | None \<Rightarrow>
                 if take 3 s = ''NaN'' then Inr (JFloat NaN, drop 3 s)
                 else if take 8 s = ''Infinity'' then Inr (JFloat PosInfinity, drop 8 s)
                 else if take 9 s = ''-Infinity'' then Inr (JFloat NegInfinity, drop 9 s)
                 else Inl JSONDecodeError))"
| "JSONArray 0 s = Inl OtherException"
| "JSONArray (Suc n) s =
     (case scan_once n s of
        Inl e \<Rightarrow> Inl e
      | Inr (v, r1) \<Rightarrow>
          (case skip_ws r1 of
             [] \<Rightarrow> Inl JSONDecodeError
           | c # r2 \<Rightarrow>
               if c = CHR '']'' then Inr ([v], r2)
               else if c = CHR '','' then
                 (case JSONArray n (skip_ws r2) of
                    Inl e \<Rightarrow> Inl e
                  | Inr (values, rest) \<Rightarrow> Inr (v # values, rest))
               else Inl JSONDecodeError))"
| "JSONObject 0 s = Inl OtherException"
| "JSONObject (Suc n) s =
     (case s of
        [] \<Rightarrow> Inl JSONDecodeError
      | q # cs \<Rightarrow>
          if q \<noteq> CHR 0x22 then Inl JSONDecodeError
          else
            (case scanstring cs of
               Inl e \<Rightarrow> Inl e
             | Inr (key, r1) \<Rightarrow>
                 (case skip_ws r1 of
                    [] \<Rightarrow> Inl JSONDecodeError
                  | c1 # r2 \<Rightarrow>
                      if c1 \<noteq> CHR '':'' then Inl JSONDecodeError
                      else
                        (case scan_once n (skip_ws r2) of
                           Inl e \<Rightarrow> Inl e
                         | Inr (v, r3) \<Rightarrow>
                             (case skip_ws r3 of
                                [] \<Rightarrow> Inl JSONDecodeError
                              | c2 # r4 \<Rightarrow>
                                  if c2 = CHR ''}'' then Inr ([(key, v)], r4)
                                  else if c2 = CHR '','' then
                                    (case JSONObject n (skip_ws r4) of
                                       Inl e \<Rightarrow> Inl e
                                     | Inr (pairs, rest) \<Rightarrow> Inr ((key, v) # pairs, rest))
                                  else Inl JSONDecodeError)))))"

text \<open>
  \<^verbatim>\<open>json.loads\<close> on a string: one value between optional whitespace, nothing else.
  The bound on nested calls grows with the text, where Python has a fixed recursion
  limit; the theorems on the normalizer do not depend on the bound, they hold for every
  parser and so for each way of raising.
\<close>

definition json_loads :: "string \<Rightarrow> exn + json" where
  "json_loads s =
     (case scan_once (2 * length s + 2) (skip_ws s) of
        Inl e \<Rightarrow> Inl e
      | Inr (obj, rest) \<Rightarrow> if skip_ws rest = [] then Inr obj else Inl JSONDecodeError)"

section \<open>A serializer\<close>

text \<open>
  The repository never serializes a ranking; the idempotence property of the
  specification does. \<open>json_dumps\<close> writes a value in the format of \<^verbatim>\<open>json.dumps\<close> with
  its default separators and without escaping characters outside ASCII. For text within
  ASCII this is what the default \<^verbatim>\<open>json.dumps\<close> writes; outside ASCII the default writes an
  escape that the decoder reads back to the same character.
\<close>

text \<open>
  Decimal digits of a natural number and of an integer, without leading zeros.
\<close>

definition digit_char :: "nat \<Rightarrow> char" where
  "digit_char d = char_of (48 + d)"

fun show_nat :: "nat \<Rightarrow> string" where
  "show_nat n = (if n < 10 then [digit_char n] else show_nat (n div 10) @ [digit_char (n mod 10)])"

declare show_nat.simps [simp del]

definition show_int :: "int \<Rightarrow> string" where
  "show_int i = (if i < 0 then CHR ''-'' # show_nat (nat (- i)) else show_nat (nat i))"

text \<open>
  The escapes of the encoder: the quote, the backslash and the control characters; every
  other character is written as it is (\<^verbatim>\<open>ensure_ascii=False\<close>).
\<close>

definition hex_char :: "nat \<Rightarrow> char" where
  "hex_char d = (if d < 10 then char_of (48 + d) else char_of (87 + d))"

definition escape_char :: "char \<Rightarrow> string" where
  "escape_char c =
     (if c = CHR 0x22 then [CHR 0x5C, CHR 0x22]
      else if c = CHR 0x5C then [CHR 0x5C, CHR 0x5C]
      else if c = CHR 0x0A then [CHR 0x5C, CHR ''n'']
      else if c = CHR 0x0D then [CHR 0x5C, CHR ''r'']
      else if c = CHR 0x09 then [CHR 0x5C, CHR ''t'']
      else if c = CHR 0x08 then [CHR 0x5C, CHR ''b'']
      else if c = CHR 0x0C then [CHR 0x5C, CHR ''f'']
      else if (of_char c :: nat) < 0x20 then
        [CHR 0x5C, CHR ''u'', CHR ''0'', CHR ''0'',
         hex_char ((of_char c :: nat) div 16), hex_char ((of_char c :: nat) mod 16)]
      else [c])"

definition encode_string :: "string \<Rightarrow> string" where
  "encode_string s = CHR 0x22 # concat (map escape_char s) @ [CHR 0x22]"

text \<open>
  Items joined by the separator \<^verbatim>\<open>", "\<close>.
\<close>

fun join_items :: "string list \<Rightarrow> string" where
  "join_items [] = []"
| "join_items [x] = x"
| "join_items (x # y # zs) = x @ '', '' @ join_items (y # zs)"

text \<open>
  A float is written by its decimal mantissa and exponent, which the decoder reads back
  to the same pair.
\<close>

definition dumps_float :: "pyfloat \<Rightarrow> string" where
  "dumps_float f =
     (case f of
        NaN \<Rightarrow> ''NaN''
      | PosInfinity \<Rightarrow> ''Infinity''
      | NegInfinity \<Rightarrow> ''-Infinity''
      | Decimal m e \<Rightarrow> show_int m @ ''e'' @ show_int e)"

text \<open>
  The serializer, with the separators \<^verbatim>\<open>", "\<close> and \<^verbatim>\<open>": "\<close>.
\<close>

fun json_dumps :: "json \<Rightarrow> string" where
  "json_dumps JNull = ''null''"
| "json_dumps (JBool b) = (if b then ''true'' else ''false'')"
| "json_dumps (JInt i) = show_int i"
| "json_dumps (JFloat f) = dumps_float f"
| "json_dumps (JString s) = encode_string s"
| "json_dumps (JArray vs) = ''['' @ join_items (map json_dumps vs) @ '']''"
| "json_dumps (JObject kvs) =
     ''{'' @ join_items (map (\<lambda>kv. encode_string (fst kv) @ '': '' @ json_dumps (snd kv)) kvs) @ ''}''"

section \<open>Notions the properties speak of\<close>

text \<open>
  The number of entries of the \<^verbatim>\<open>rankings\<close> sequence of a returned result; \<open>None\<close> when
  nothing is returned, or the result has no such sequence.
\<close>

definition ranking_count :: "exn + json \<Rightarrow> nat option" where
  "ranking_count r =
     (case r of
        Inr (JObject kvs) \<Rightarrow>
          (case map_of kvs ''rankings'' of Some (JArray entries) \<Rightarrow> Some (length entries) | _ \<Rightarrow> None)
      | _ \<Rightarrow> None)"

text \<open>
  The slice that \<open>extract_json\<close> hands to the parser, and the condition under which it
  does so (both indices found).
\<close>

definition brace_substring :: "string \<Rightarrow> string" where
  "brace_substring response =
     str_slice response (str_find response (CHR ''{'')) (str_rfind response (CHR ''}'') + 1)"

definition braces_found :: "string \<Rightarrow> bool" where
  "braces_found response = (CHR ''{'' \<in> set response \<and> CHR ''}'' \<in> set response)"

text \<open>
  The paths of the source that end in the fallback literal: the direct parse raises
  something else than a decode error (outermost handler); it raises a decode error and a
  brace is missing, or the parse of the slice raises, or yields a value that fails the
  validation; or the direct parse yields a value that fails the validation.
\<close>

definition fallback_triggered :: "loads_fun \<Rightarrow> string \<Rightarrow> bool" where
  "fallback_triggered loads response =
     (case loads response of
        Inr v \<Rightarrow> validation_fails v
      | Inl OtherException \<Rightarrow> True
      | Inl JSONDecodeError \<Rightarrow>
          (if braces_found response then
             (case loads (brace_substring response) of
                Inr v \<Rightarrow> validation_fails v
              | Inl e \<Rightarrow> True)
           else True))"

section \<open>Concrete inputs\<close>

text \<open>
  The response of the specification's example, with a well-formed ranking in the place
  of its dots, and the value it embeds.
\<close>

definition example_response :: string where
  \<open>example_response =
     ''Here is the result: {"rankings": [{"resume_name": "a.pdf", "match_percentage": 85, "rank": 1, "strengths": ["skill1", "skill2"], "gaps": ["gap1", "gap2"]}]} Thanks!''\<close>

definition example_rankings :: json where
  "example_rankings =
     JObject
       [(''rankings'',
         JArray
           [JObject
              [(''resume_name'', JString ''a.pdf''),
               (''match_percentage'', JInt 85),
               (''rank'', JInt 1),
               (''strengths'', JArray [JString ''skill1'', JString ''skill2'']),
               (''gaps'', JArray [JString ''gap1'', JString ''gap2''])]])]"

text \<open>
  Three resumes, the text \<^verbatim>\<open>json.dumps\<close> writes for the fallback result of the first
  two, and three uploaded files, the second of which cannot be read.
\<close>

definition resume_a :: resume where
  "resume_a = \<lparr>name = ''a.pdf'', content = ''alpha''\<rparr>"

definition resume_b :: resume where
  "resume_b = \<lparr>name = ''b.pdf'', content = ''beta''\<rparr>"

definition resume_c :: resume where
  "resume_c = \<lparr>name = ''c.pdf'', content = ''gamma''\<rparr>"

definition serialized_fallback :: string where
  \<open>serialized_fallback =
     ''{"rankings": [{"resume_name": "a.pdf", "match_percentage": 0, "rank": 1, "strengths": ["Unable to analyze strengths"], "gaps": ["Unable to analyze gaps"]}, {"resume_name": "b.pdf", "match_percentage": 0, "rank": 2, "strengths": ["Unable to analyze strengths"], "gaps": ["Unable to analyze gaps"]}]}''\<close>

definition file_a :: uploaded_file where
  "file_a = \<lparr>file_name = ''a.pdf'', fitz_text = Inr ''alpha''\<rparr>"

definition file_b :: uploaded_file where
  "file_b = \<lparr>file_name = ''b.pdf'', fitz_text = Inl OtherException\<rparr>"

definition file_c :: uploaded_file where
  "file_c = \<lparr>file_name = ''c.pdf'', fitz_text = Inr ''gamma''\<rparr>"

section \<open>Lemmas on the string operations and the normalizer\<close>

lemma str_find_lower: "- 1 \<le> str_find s c"
  by (induction s) (auto simp: Let_def)

lemma str_find_none: "(str_find s c = - 1) = (c \<notin> set s)"
proof (induction s)
  case Nil
  show ?case by simp
next
  case (Cons x xs)
  have "- 1 \<le> str_find xs c" by (rule str_find_lower)
  with Cons show ?case by (auto simp: Let_def)
qed

lemma str_rfind_lower: "- 1 \<le> str_rfind s c"
  by (induction s) (auto simp: Let_def)

lemma str_rfind_none: "(str_rfind s c = - 1) = (c \<notin> set s)"
proof (induction s)
  case Nil
  show ?case by simp
next
  case (Cons x xs)
  have "- 1 \<le> str_rfind xs c" by (rule str_rfind_lower)
  with Cons show ?case by (auto simp: Let_def)
qed

lemma end_idx_zero: "(str_rfind s c + 1 = 0) = (c \<notin> set s)"
proof -
  have "(str_rfind s c + 1 = 0) = (str_rfind s c = - 1)" by arith
  then show ?thesis by (simp only: str_rfind_none)
qed

lemma str_find_first:
  "i < length s \<Longrightarrow> s ! i = c \<Longrightarrow> c \<notin> set (take i s) \<Longrightarrow> str_find s c = int i"
proof (induction s arbitrary: i)
  case Nil
  then show ?case by simp
next
  case (Cons x xs)
  show ?case
  proof (cases i)
    case 0
    with Cons.prems show ?thesis by simp
  next
    case (Suc k)
    with Cons.prems have "x \<noteq> c" "k < length xs" "xs ! k = c" "c \<notin> set (take k xs)"
      by auto
    with Cons.IH [of k] Suc show ?thesis by (simp add: Let_def)
  qed
qed

lemma str_rfind_last:
  "j < length s \<Longrightarrow> s ! j = c \<Longrightarrow> c \<notin> set (drop (Suc j) s) \<Longrightarrow> str_rfind s c = int j"
proof (induction s arbitrary: j)
  case Nil
  then show ?case by simp
next
  case (Cons x xs)
  show ?case
  proof (cases j)
    case 0
    with Cons.prems have "c \<notin> set xs" "x = c" by auto
    then show ?thesis using 0 by (simp add: Let_def str_rfind_none)
  next
    case (Suc k)
    with Cons.prems have "k < length xs" "xs ! k = c" "c \<notin> set (drop (Suc k) xs)"
      by auto
    with Cons.IH [of k] Suc show ?thesis by (simp add: Let_def)
  qed
qed

lemma str_slice_nat:
  "i \<le> j \<Longrightarrow> j < length s \<Longrightarrow> str_slice s (int i) (int j + 1) = take (Suc j - i) (drop i s)"
  by (simp add: str_slice_def Let_def min_def nat_diff_distrib' Suc_diff_le nat_add_distrib)

lemma extract_json_cases:
  "extract_json loads response resumes =
     (if braces_found response then
        (case loads (brace_substring response) of
           Inr v \<Rightarrow> Inr v
         | Inl e \<Rightarrow> Inr (fallback_rankings resumes))
      else Inr (fallback_rankings resumes))"
  by (simp add: extract_json_def braces_found_def brace_substring_def Let_def
      str_find_none end_idx_zero)

lemma valid_fallback: "\<not> validation_fails (fallback_rankings resumes)"
  by (simp add: validation_fails_def fallback_rankings_def)

lemma normalize_cases:
  "normalize loads response resumes =
     (if fallback_triggered loads response then Inr (fallback_rankings resumes)
      else (case loads response of
              Inr v \<Rightarrow> Inr v
            | Inl e \<Rightarrow> loads (brace_substring response)))"
  by (auto simp: normalize_def parse_response_def extract_json_cases fallback_triggered_def
      valid_fallback split: sum.splits exn.splits)

lemma fallback_entries:
  "i < length resumes \<Longrightarrow>
   map fallback_entry (enumerate 0 resumes) ! i =
     JObject
       [(''resume_name'', JString (name (resumes ! i))),
        (''match_percentage'', JInt 0),
        (''rank'', JInt (int i + 1)),
        (''strengths'', JArray [JString ''Unable to analyze strengths'']),
        (''gaps'', JArray [JString ''Unable to analyze gaps''])]"
  by (simp add: fallback_entry_def nth_enumerate_eq)

lemma all_resumes_map:
  "all_resumes files =
     map (\<lambda>file. \<lparr>name = file_name file,
                  content = (case fitz_text file of Inr text \<Rightarrow> text | Inl e \<Rightarrow> [])\<rparr>) files"
  by (induction files) (auto simp: extract_text_from_pdf_def split: sum.splits)

lemma normalize_returns_dict:
  "\<exists>kvs. normalize loads response resumes = Inr (JObject kvs) \<and> ''rankings'' \<in> fst ` set kvs"
proof (cases "fallback_triggered loads response")
  case True
  then show ?thesis by (simp add: normalize_cases fallback_rankings_def)
next
  case False
  then show ?thesis
    by (auto simp: normalize_cases fallback_triggered_def validation_fails_def
        elim!: is_dict.elims
        split: sum.splits exn.splits if_splits)
qed

section \<open>Lemmas on the decoder and the serializer\<close>

text \<open>
  The decoder reads back what the serializer writes for a string, for a natural number
  and for the fallback result of any resume list.
\<close>

lemma of_char_hex_char: "d < 16 \<Longrightarrow> (of_char (hex_char d) :: nat) = (if d < 10 then 48 + d else 87 + d)"
  by (simp add: hex_char_def)

lemma hex_val_hex_char: "d < 16 \<Longrightarrow> hex_val (hex_char d) = Some d"
  by (simp add: hex_val_def Let_def of_char_hex_char)

lemma hex4_escape:
  assumes "n < 32"
  shows "hex4 (CHR ''0'' # CHR ''0'' # hex_char (n div 16) # hex_char (n mod 16) # tail) = Some n"
proof -
  from assms have hi: "n div 16 < 16" by simp
  have lo: "n mod 16 < 16" by simp
  have zero: "hex_val (CHR ''0'') = Some 0" by (simp add: hex_val_def)
  show ?thesis
    by (simp add: hex4_def zero hex_val_hex_char [OF hi] hex_val_hex_char [OF lo])
qed

lemma scanstring_quote: "scanstring (CHR 0x22 # rest) = Inr ([], rest)"
  by simp

lemma scanstring_plain:
  "c \<noteq> CHR 0x22 \<Longrightarrow> c \<noteq> CHR 0x5C \<Longrightarrow> \<not> (of_char c :: nat) < 0x20 \<Longrightarrow>
   scanstring (c # cs) = prepend [c] (scanstring cs)"
  by simp

lemma scanstring_short:
  "unescape e = Some ch \<Longrightarrow> e \<noteq> CHR ''u'' \<Longrightarrow>
   scanstring (CHR 0x5C # e # cs) = prepend [ch] (scanstring cs)"
  by simp

lemma scanstring_control:
  assumes "n < 32"
  shows "scanstring (CHR 0x5C # CHR ''u'' # CHR ''0'' # CHR ''0'' # hex_char (n div 16) #
           hex_char (n mod 16) # cs) = prepend [char_of n] (scanstring cs)"
proof -
  have small: "\<not> (0xD800 \<le> n)" using assms by simp
  have enc: "utf8 n = [char_of n]" using assms by (simp add: utf8_def)
  show ?thesis
    by (simp add: hex4_escape [OF assms] small enc)
qed

lemma scanstring_escape_char:
  "scanstring (escape_char c @ cs) = prepend [c] (scanstring cs)"
proof -
  let ?n = "of_char c :: nat"
  show ?thesis
  proof (cases "c = CHR 0x22 \<or> c = CHR 0x5C \<or> c = CHR 0x0A \<or> c = CHR 0x0D \<or>
        c = CHR 0x09 \<or> c = CHR 0x08 \<or> c = CHR 0x0C")
    case True
    then consider "c = CHR 0x22" | "c = CHR 0x5C" | "c = CHR 0x0A" | "c = CHR 0x0D"
      | "c = CHR 0x09" | "c = CHR 0x08" | "c = CHR 0x0C"
      by blast
    then show ?thesis
    proof cases
      case 1
      have "unescape (CHR 0x22) = Some (CHR 0x22)" by (simp add: unescape_def)
      then have "scanstring (CHR 0x5C # CHR 0x22 # cs) = prepend [CHR 0x22] (scanstring cs)"
        by (rule scanstring_short) simp
      with 1 show ?thesis by (simp add: escape_char_def del: scanstring.simps)
    next
      case 2
      have "unescape (CHR 0x5C) = Some (CHR 0x5C)" by (simp add: unescape_def)
      then have "scanstring (CHR 0x5C # CHR 0x5C # cs) = prepend [CHR 0x5C] (scanstring cs)"
        by (rule scanstring_short) simp
      with 2 show ?thesis by (simp add: escape_char_def del: scanstring.simps)
    next
      case 3
      have "unescape (CHR ''n'') = Some (CHR 0x0A)" by (simp add: unescape_def)
      then have "scanstring (CHR 0x5C # CHR ''n'' # cs) = prepend [CHR 0x0A] (scanstring cs)"
        by (rule scanstring_short) simp
      with 3 show ?thesis by (simp add: escape_char_def del: scanstring.simps)
    next
      case 4
      have "unescape (CHR ''r'') = Some (CHR 0x0D)" by (simp add: unescape_def)
      then have "scanstring (CHR 0x5C # CHR ''r'' # cs) = prepend [CHR 0x0D] (scanstring cs)"
        by (rule scanstring_short) simp
      with 4 show ?thesis by (simp add: escape_char_def del: scanstring.simps)
    next
      case 5
      have "unescape (CHR ''t'') = Some (CHR 0x09)" by (simp add: unescape_def)
      then have "scanstring (CHR 0x5C # CHR ''t'' # cs) = prepend [CHR 0x09] (scanstring cs)"
        by (rule scanstring_short) simp
      with 5 show ?thesis by (simp add: escape_char_def del: scanstring.simps)
    next
      case 6
      have "unescape (CHR ''b'') = Some (CHR 0x08)" by (simp add: unescape_def)
      then have "scanstring (CHR 0x5C # CHR ''b'' # cs) = prepend [CHR 0x08] (scanstring cs)"
        by (rule scanstring_short) simp
      with 6 show ?thesis by (simp add: escape_char_def del: scanstring.simps)
    next
      case 7
      have "unescape (CHR ''f'') = Some (CHR 0x0C)" by (simp add: unescape_def)
      then have "scanstring (CHR 0x5C # CHR ''f'' # cs) = prepend [CHR 0x0C] (scanstring cs)"
        by (rule scanstring_short) simp
      with 7 show ?thesis by (simp add: escape_char_def del: scanstring.simps)
    qed
  next
    case False
    show ?thesis
    proof (cases "?n < 0x20")
      case True
      then have "?n < 32" by simp
      then have "scanstring (CHR 0x5C # CHR ''u'' # CHR ''0'' # CHR ''0'' # hex_char (?n div 16) #
           hex_char (?n mod 16) # cs) = prepend [char_of ?n] (scanstring cs)"
        by (rule scanstring_control)
      moreover have "escape_char c = [CHR 0x5C, CHR ''u'', CHR ''0'', CHR ''0'',
          hex_char (?n div 16), hex_char (?n mod 16)]"
        using False True by (simp add: escape_char_def)
      ultimately show ?thesis by (simp del: scanstring.simps)
    next
      case small: False
      with False have "escape_char c = [c]" by (simp add: escape_char_def)
      moreover from False small have "scanstring (c # cs) = prepend [c] (scanstring cs)"
        by (intro scanstring_plain) auto
      ultimately show ?thesis by (simp del: scanstring.simps)
    qed
  qed
qed

lemma scanstring_escape:
  "scanstring (concat (map escape_char s) @ CHR 0x22 # rest) = Inr (s, rest)"
proof (induction s)
  case Nil
  show ?case by simp
next
  case (Cons c s)
  then show ?case
    by (simp add: scanstring_escape_char prepend_def del: scanstring.simps)
qed

lemma scanstring_encode:
  "scanstring (tl (encode_string s) @ rest) = Inr (s, rest)"
  using scanstring_escape [of s rest] by (simp add: encode_string_def del: scanstring.simps)

lemma of_char_digit_char: "d < 10 \<Longrightarrow> (of_char (digit_char d) :: nat) = 48 + d"
  by (simp add: digit_char_def)

lemma is_digit_digit_char: "d < 10 \<Longrightarrow> is_digit (digit_char d)"
  by (simp add: is_digit_def of_char_digit_char)

lemma show_nat_digits: "c \<in> set (show_nat n) \<Longrightarrow> is_digit c"
proof (induction n arbitrary: c rule: show_nat.induct)
  case (1 n)
  show ?case
  proof (cases "n < 10")
    case True
    with "1.prems" show ?thesis
      by (simp add: show_nat.simps [of n] is_digit_digit_char)
  next
    case False
    have "n mod 10 < 10" by simp
    then have "is_digit (digit_char (n mod 10))" by (rule is_digit_digit_char)
    with False "1.prems" "1.IH" show ?thesis
      by (auto simp: show_nat.simps [of n])
  qed
qed

lemma digits_val_snoc:
  "d < 10 \<Longrightarrow> digits_val (ds @ [digit_char d]) = 10 * digits_val ds + d"
  by (simp add: digits_val_def of_char_digit_char)

lemma digits_val_show_nat: "digits_val (show_nat n) = n"
proof (induction n rule: show_nat.induct)
  case (1 n)
  show ?case
  proof (cases "n < 10")
    case True
    then show ?thesis
      using digits_val_snoc [of n "[]"] by (simp add: show_nat.simps [of n] digits_val_def)
  next
    case False
    have "n mod 10 < 10" by simp
    then have "digits_val (show_nat (n div 10) @ [digit_char (n mod 10)]) =
        10 * digits_val (show_nat (n div 10)) + n mod 10"
      by (rule digits_val_snoc)
    with False "1.IH" show ?thesis
      by (simp add: show_nat.simps [of n])
  qed
qed

lemma show_nat_not_Nil: "show_nat n \<noteq> []"
  by (simp add: show_nat.simps [of n])

lemma digit_char_0: "digit_char 0 = CHR ''0''"
  by code_simp

lemma show_nat_zero: "show_nat 0 = [CHR ''0'']"
  by (simp add: show_nat.simps [of 0] digit_char_0)

lemma digit_char_zero: "d < 10 \<Longrightarrow> (digit_char d = CHR ''0'') = (d = 0)"
proof
  assume "d < 10" and "digit_char d = CHR ''0''"
  then have "(of_char (digit_char d) :: nat) = 48" by simp
  with \<open>d < 10\<close> show "d = 0" by (simp add: of_char_digit_char)
next
  assume "d = 0"
  then show "digit_char d = CHR ''0''" by (simp add: digit_char_0)
qed

lemma hd_show_nat: "0 < n \<Longrightarrow> hd (show_nat n) \<noteq> CHR ''0''"
proof (induction n rule: show_nat.induct)
  case (1 n)
  show ?case
  proof (cases "n < 10")
    case True
    with "1.prems" show ?thesis
      by (simp add: show_nat.simps [of n] digit_char_zero)
  next
    case False
    then have "0 < n div 10" by simp
    with False "1.IH" have "hd (show_nat (n div 10)) \<noteq> CHR ''0''" by simp
    with False show ?thesis
      by (simp add: show_nat.simps [of n] show_nat_not_Nil)
  qed
qed

lemma takeWhile_digits:
  assumes "\<And>c. c \<in> set ds \<Longrightarrow> is_digit c" and "\<not> is_digit c"
  shows "takeWhile is_digit (ds @ c # cs) = ds"
  using assms by (simp add: takeWhile_append2)

lemma match_number_show_nat:
  assumes "\<not> is_digit c" and "c \<noteq> CHR ''.''" and "c \<noteq> CHR ''e''" and "c \<noteq> CHR ''E''"
  shows "match_number (show_nat n @ c # cs) = Some (JInt (int n), c # cs)"
proof -
  obtain d ds where split: "show_nat n = d # ds"
    using show_nat_not_Nil [of n] by (cases "show_nat n") auto
  have d: "is_digit d" and ds: "\<And>x. x \<in> set ds \<Longrightarrow> is_digit x"
    using show_nat_digits [of _ n] by (simp_all add: split)
  have minus: "d \<noteq> CHR ''-''"
    using d by (auto simp: is_digit_def)
  have run: "(if d = CHR ''0'' then [d] else d # takeWhile is_digit (ds @ c # cs)) = d # ds"
  proof (cases "d = CHR ''0''")
    case True
    have "n = 0"
    proof (rule ccontr)
      assume "n \<noteq> 0"
      then have "hd (show_nat n) \<noteq> CHR ''0''" by (intro hd_show_nat) simp
      with True split show False by simp
    qed
    with split show ?thesis by (simp add: show_nat_zero)
  next
    case False
    then show ?thesis using takeWhile_digits [OF ds assms(1)] by simp
  qed
  have val: "digits_val (d # ds) = n"
    using digits_val_show_nat [of n] by (simp add: split)
  have neg: "(take 1 ((d # ds) @ c # cs) = ''-'') = False"
    using minus by simp
  have frac: "(take 1 (c # cs) = ''.'') = False"
    using assms(2) by simp
  have expo: "(take 1 (c # cs) = ''e'' \<or> take 1 (c # cs) = ''E'') = False"
    using assms(3,4) by simp
  have rest: "drop (length (d # ds)) ((d # ds) @ c # cs) = c # cs"
    by simp
  have "match_number ((d # ds) @ c # cs) = Some (JInt (int n), c # cs)"
    using assms(2,3,4)
    unfolding match_number_def neg Let_def if_False
    by (simp only: append_Cons list.case d not_True_eq_False if_False not_not run rest frac
        expo val) simp
  then show ?thesis by (simp only: split)
qed

lemma skip_ws_Cons: "\<not> is_ws c \<Longrightarrow> skip_ws (c # cs) = c # cs"
  by (simp add: skip_ws_def)

lemma skip_ws_space: "skip_ws (CHR '' '' # cs) = skip_ws cs"
  by (simp add: skip_ws_def is_ws_def)

lemma not_ws_quote: "\<not> is_ws (CHR 0x22)"
  by (simp add: is_ws_def)

lemma encode_string_Cons:
  "encode_string s @ rest = CHR 0x22 # concat (map escape_char s) @ CHR 0x22 # rest"
  by (simp add: encode_string_def)

lemma scan_once_string:
  assumes "1 \<le> k"
  shows "scan_once k (encode_string s @ rest) = Inr (JString s, rest)"
proof -
  from assms obtain n where k: "k = Suc n" by (cases k) auto
  show ?thesis
    by (simp add: k encode_string_Cons scanstring_escape del: scanstring.simps)
qed

lemma digit_not_special:
  assumes "is_digit d"
  shows "d \<noteq> CHR 0x22" "d \<noteq> CHR ''{''" "d \<noteq> CHR ''[''" "d \<noteq> CHR ''n''"
    "d \<noteq> CHR ''t''" "d \<noteq> CHR ''f''" "\<not> is_ws d"
  using assms by (auto simp: is_digit_def is_ws_def)

lemma scan_once_nat:
  assumes "1 \<le> k"
    and "\<not> is_digit c" and "c \<noteq> CHR ''.''" and "c \<noteq> CHR ''e''" and "c \<noteq> CHR ''E''"
  shows "scan_once k (show_nat n @ c # cs) = Inr (JInt (int n), c # cs)"
proof -
  from assms(1) obtain m where k: "k = Suc m" by (cases k) auto
  obtain d ds where split: "show_nat n = d # ds"
    using show_nat_not_Nil [of n] by (cases "show_nat n") auto
  have "is_digit d" using show_nat_digits [of d n] by (simp add: split)
  note d = digit_not_special [OF this]
  have num: "match_number (d # ds @ c # cs) = Some (JInt (int n), c # cs)"
    using match_number_show_nat [OF assms(2-5), of n cs] by (simp add: split)
  show ?thesis
    by (simp add: k split d num)
qed

lemma skip_ws_encode: "skip_ws (encode_string s @ r) = encode_string s @ r"
  by (simp add: encode_string_Cons skip_ws_Cons not_ws_quote)

lemma skip_ws_sep:
  "skip_ws (CHR '' '' # encode_string s @ r) = encode_string s @ r"
  by (simp only: skip_ws_space skip_ws_encode)

lemma JSONObject_key:
  "JSONObject (Suc m) (encode_string key @ CHR '':'' # CHR '' '' # vt) =
     (case scan_once m (skip_ws vt) of
        Inl e \<Rightarrow> Inl e
      | Inr (v, r3) \<Rightarrow>
          (case skip_ws r3 of
             [] \<Rightarrow> Inl JSONDecodeError
           | c2 # r4 \<Rightarrow>
               if c2 = CHR ''}'' then Inr ([(key, v)], r4)
               else if c2 = CHR '','' then
                 (case JSONObject m (skip_ws r4) of
                    Inl e \<Rightarrow> Inl e
                  | Inr (pairs, rest) \<Rightarrow> Inr ((key, v) # pairs, rest))
               else Inl JSONDecodeError))"
proof -
  have colon: "skip_ws (CHR '':'' # CHR '' '' # vt) = CHR '':'' # CHR '' '' # vt"
    by (simp add: skip_ws_Cons is_ws_def)
  show ?thesis
    by (simp add: encode_string_Cons scanstring_escape colon skip_ws_space
        del: scanstring.simps)
qed

lemma JSONObject_last:
  assumes "scan_once m (vt @ ''}'' @ rest) = Inr (v, ''}'' @ rest)"
    and "skip_ws (vt @ ''}'' @ rest) = vt @ ''}'' @ rest"
  shows "JSONObject (Suc m) (encode_string key @ '': '' @ vt @ ''}'' @ rest) =
           Inr ([(key, v)], rest)"
proof -
  have brace: "skip_ws (CHR ''}'' # rest) = CHR ''}'' # rest"
    by (simp add: skip_ws_Cons is_ws_def)
  show ?thesis
    using assms by (simp add: JSONObject_key brace del: JSONObject.simps)
qed

lemma JSONObject_more:
  assumes "scan_once m (vt @ '', '' @ encode_string k2 @ after) =
             Inr (v, '', '' @ encode_string k2 @ after)"
    and "skip_ws (vt @ '', '' @ encode_string k2 @ after) = vt @ '', '' @ encode_string k2 @ after"
    and "JSONObject m (encode_string k2 @ after) = Inr (pairs, rest)"
  shows "JSONObject (Suc m) (encode_string key @ '': '' @ vt @ '', '' @ encode_string k2 @ after) =
           Inr ((key, v) # pairs, rest)"
proof -
  have comma: "skip_ws (CHR '','' # CHR '' '' # encode_string k2 @ after) =
      CHR '','' # CHR '' '' # encode_string k2 @ after"
    by (simp add: skip_ws_Cons is_ws_def)
  show ?thesis
    using assms by (simp add: JSONObject_key comma skip_ws_sep del: JSONObject.simps)
qed

lemma scan_once_object:
  assumes "JSONObject n (encode_string key @ r) = Inr (pairs, rest)"
  shows "scan_once (Suc n) (''{'' @ encode_string key @ r) = Inr (JObject (dict pairs), rest)"
proof -
  have "skip_ws (CHR 0x22 # concat (map escape_char key) @ CHR 0x22 # r) =
      CHR 0x22 # concat (map escape_char key) @ CHR 0x22 # r"
    by (simp add: skip_ws_Cons not_ws_quote)
  then show ?thesis
    using assms by (simp add: encode_string_Cons del: JSONObject.simps)
qed

lemma scan_once_array:
  assumes "JSONArray n (c # cs) = Inr (vs, rest)" and "\<not> is_ws c" and "c \<noteq> CHR '']''"
  shows "scan_once (Suc n) (CHR ''['' # c # cs) = Inr (JArray vs, rest)"
  using assms by (simp add: skip_ws_Cons del: JSONArray.simps)

lemma JSONArray_last:
  assumes "scan_once m (vt @ CHR '']'' # rest) = Inr (v, CHR '']'' # rest)"
  shows "JSONArray (Suc m) (vt @ CHR '']'' # rest) = Inr ([v], rest)"
proof -
  have bracket: "skip_ws (CHR '']'' # rest) = CHR '']'' # rest"
    by (simp add: skip_ws_Cons is_ws_def)
  show ?thesis
    using assms by (simp add: bracket del: scan_once.simps)
qed

lemma JSONArray_more:
  assumes "scan_once m (vt @ CHR '','' # CHR '' '' # c # cs) = Inr (v, CHR '','' # CHR '' '' # c # cs)"
    and "\<not> is_ws c"
    and "JSONArray m (c # cs) = Inr (vs, rest)"
  shows "JSONArray (Suc m) (vt @ CHR '','' # CHR '' '' # c # cs) = Inr (v # vs, rest)"
proof -
  have comma: "skip_ws (CHR '','' # CHR '' '' # c # cs) = CHR '','' # CHR '' '' # c # cs"
    by (simp add: skip_ws_Cons is_ws_def)
  have space: "skip_ws (CHR '' '' # c # cs) = c # cs"
    using assms(2) by (simp add: skip_ws_space skip_ws_Cons)
  show ?thesis
    using assms(1,3) by (simp add: comma space del: scan_once.simps)
qed

lemma scan_once_string_list:
  assumes "3 \<le> k"
  shows "scan_once k (''['' @ encode_string s @ '']'' @ rest) = Inr (JArray [JString s], rest)"
proof -
  from assms have "k = Suc (Suc (Suc (k - 3)))" by arith
  then obtain n where k: "k = Suc (Suc (Suc n))" ..
  have "scan_once (Suc n) (encode_string s @ CHR '']'' # rest) =
      Inr (JString s, CHR '']'' # rest)"
    by (rule scan_once_string) simp
  then have "JSONArray (Suc (Suc n)) (encode_string s @ CHR '']'' # rest) =
      Inr ([JString s], rest)"
    by (rule JSONArray_last)
  then have "JSONArray (Suc (Suc n))
      (CHR 0x22 # concat (map escape_char s) @ CHR 0x22 # CHR '']'' # rest) =
      Inr ([JString s], rest)"
    by (simp only: encode_string_Cons)
  then have "scan_once (Suc (Suc (Suc n)))
      (CHR ''['' # CHR 0x22 # concat (map escape_char s) @ CHR 0x22 # CHR '']'' # rest) =
      Inr (JArray [JString s], rest)"
    by (rule scan_once_array) (simp_all add: not_ws_quote)
  then show ?thesis by (simp add: k encode_string_Cons del: scan_once.simps)
qed

lemma skip_ws_show_nat: "skip_ws (show_nat n @ r) = show_nat n @ r"
proof -
  obtain d ds where split: "show_nat n = d # ds"
    using show_nat_not_Nil [of n] by (cases "show_nat n") auto
  have "is_digit d" using show_nat_digits [of d n] by (simp add: split)
  then have "\<not> is_ws d" by (rule digit_not_special)
  then show ?thesis by (simp add: split skip_ws_Cons)
qed

lemma skip_ws_bracket: "skip_ws (CHR ''['' # r) = CHR ''['' # r"
  by (simp add: skip_ws_Cons is_ws_def)

lemma skip_ws_comma: "skip_ws (CHR '','' # r) = CHR '','' # r"
  by (simp add: skip_ws_Cons is_ws_def)

lemma skip_ws_close: "skip_ws (CHR ''}'' # r) = CHR ''}'' # r"
  by (simp add: skip_ws_Cons is_ws_def)

lemma scan_once_object_step:
  "scan_once (Suc n) (CHR ''{'' # encode_string key @ r) =
     (case JSONObject n (encode_string key @ r) of
        Inl e \<Rightarrow> Inl e
      | Inr (pairs, rest) \<Rightarrow> Inr (JObject (dict pairs), rest))"
  by (simp add: encode_string_Cons skip_ws_Cons not_ws_quote del: JSONObject.simps)

lemma scan_once_string_list_step:
  "3 \<le> k \<Longrightarrow>
   scan_once k (CHR ''['' # encode_string s @ CHR '']'' # rest) = Inr (JArray [JString s], rest)"
  using scan_once_string_list [of k s rest] by simp

lemma scan_once_nat_comma:
  "1 \<le> k \<Longrightarrow> scan_once k (show_nat n @ CHR '','' # cs) = Inr (JInt (int n), CHR '','' # cs)"
  by (rule scan_once_nat) (simp_all add: is_digit_def)

lemma show_int_nat: "show_int (int n) = show_nat n"
  by (simp add: show_int_def)

lemma show_int_rank: "show_int (int i + 1) = show_nat (Suc i)"
proof -
  have "int i + 1 = int (Suc i)" by simp
  then show ?thesis by (simp only: show_int_nat)
qed

lemma show_int_zero: "show_int 0 = show_nat 0"
  using show_int_nat [of 0] by simp

lemma dumps_entry:
  "json_dumps (fallback_entry (i, r)) @ rest =
     CHR ''{'' # encode_string ''resume_name'' @ CHR '':'' # CHR '' '' #
       encode_string (name r) @ CHR '','' # CHR '' '' #
     encode_string ''match_percentage'' @ CHR '':'' # CHR '' '' #
       show_nat 0 @ CHR '','' # CHR '' '' #
     encode_string ''rank'' @ CHR '':'' # CHR '' '' #
       show_nat (Suc i) @ CHR '','' # CHR '' '' #
     encode_string ''strengths'' @ CHR '':'' # CHR '' '' #
       CHR ''['' # encode_string ''Unable to analyze strengths'' @ CHR '']'' #
       CHR '','' # CHR '' '' #
     encode_string ''gaps'' @ CHR '':'' # CHR '' '' #
       CHR ''['' # encode_string ''Unable to analyze gaps'' @ CHR '']'' #
     CHR ''}'' # rest"
  by (simp add: fallback_entry_def show_int_rank show_int_zero)

lemma dict_entry:
  "dict
     [(''resume_name'', a), (''match_percentage'', b), (''rank'', c), (''strengths'', d),
      (''gaps'', e)] =
     [(''resume_name'', a), (''match_percentage'', b), (''rank'', c), (''strengths'', d),
      (''gaps'', e)]"
  by (simp add: dict_def)

lemma scan_once_entry:
  assumes "9 \<le> k"
  shows "scan_once k (json_dumps (fallback_entry (i, r)) @ rest) =
           Inr (fallback_entry (i, r), rest)"
proof -
  from assms have "k = Suc (Suc (Suc (Suc (Suc (Suc (k - 6))))))" and "3 \<le> k - 6"
    by arith+
  then obtain n where k: "k = Suc (Suc (Suc (Suc (Suc (Suc n)))))" and n: "3 \<le> n"
    by blast
  from n have n': "3 \<le> Suc n" by simp
  show ?thesis
    unfolding dumps_entry k
    by (simp add: scan_once_object_step JSONObject_key skip_ws_encode skip_ws_show_nat
        skip_ws_bracket skip_ws_comma skip_ws_close skip_ws_sep
        scan_once_string scan_once_nat_comma scan_once_string_list_step [OF n]
        scan_once_string_list_step [OF n'] dict_entry fallback_entry_def
        del: scan_once.simps JSONObject.simps JSONArray.simps)
qed

lemma dumps_entry_head: "\<exists>cs. json_dumps (fallback_entry p) = CHR ''{'' # cs"
proof -
  obtain i r where p: "p = (i, r)" by (cases p)
  from dumps_entry [of i r "[]"] show ?thesis by (simp add: p del: json_dumps.simps)
qed

lemma JSONArray_entries:
  assumes "ps \<noteq> []" and "length ps + 9 \<le> k"
  shows "JSONArray k (join_items (map (\<lambda>p. json_dumps (fallback_entry p)) ps) @ CHR '']'' # rest) =
           Inr (map fallback_entry ps, rest)"
  using assms
proof (induction ps arbitrary: k)
  case Nil
  then show ?case by simp
next
  case (Cons p ps)
  from Cons.prems(2) obtain m where k: "k = Suc m" and m: "length ps + 9 \<le> m"
    by (cases k) auto
  obtain i r where p: "p = (i, r)" by (cases p)
  from m have m9: "9 \<le> m" by simp
  show ?case
  proof (cases ps)
    case Nil
    have "scan_once m (json_dumps (fallback_entry p) @ CHR '']'' # rest) =
        Inr (fallback_entry p, CHR '']'' # rest)"
      unfolding p using m9 by (rule scan_once_entry)
    then have "JSONArray (Suc m) (json_dumps (fallback_entry p) @ CHR '']'' # rest) =
        Inr ([fallback_entry p], rest)"
      by (rule JSONArray_last)
    with Nil k show ?thesis by simp
  next
    case (Cons q qs)
    let ?tail = "join_items (map (\<lambda>p. json_dumps (fallback_entry p)) ps) @ CHR '']'' # rest"
    obtain cs where head: "json_dumps (fallback_entry q) = CHR ''{'' # cs"
      using dumps_entry_head by blast
    obtain ts where tail: "?tail = CHR ''{'' # ts"
      using head Cons by (cases qs) simp_all
    have first: "scan_once m (json_dumps (fallback_entry p) @ CHR '','' # CHR '' '' # CHR ''{'' # ts) =
        Inr (fallback_entry p, CHR '','' # CHR '' '' # CHR ''{'' # ts)"
      unfolding p using m9 by (rule scan_once_entry)
    have "ps \<noteq> []" using Cons by simp
    moreover have "length ps + 9 \<le> m" by (rule m)
    ultimately have "JSONArray m ?tail = Inr (map fallback_entry ps, rest)"
      by (rule Cons.IH)
    then have others: "JSONArray m (CHR ''{'' # ts) = Inr (map fallback_entry ps, rest)"
      by (simp only: tail)
    have "\<not> is_ws (CHR ''{'')" by (simp add: is_ws_def)
    with first have "JSONArray (Suc m)
        (json_dumps (fallback_entry p) @ CHR '','' # CHR '' '' # CHR ''{'' # ts) =
        Inr (fallback_entry p # map fallback_entry ps, rest)"
      using others by (rule JSONArray_more)
    moreover have "join_items (map (\<lambda>p. json_dumps (fallback_entry p)) (p # ps)) @ CHR '']'' # rest =
        json_dumps (fallback_entry p) @ CHR '','' # CHR '' '' # ?tail"
      using Cons by simp
    ultimately show ?thesis by (simp only: k tail list.map)
  qed
qed

lemma dumps_fallback:
  "json_dumps (fallback_rankings resumes) @ rest =
     CHR ''{'' # encode_string ''rankings'' @ CHR '':'' # CHR '' '' # CHR ''['' #
       join_items (map (\<lambda>p. json_dumps (fallback_entry p)) (enumerate 0 resumes)) @
       CHR '']'' # CHR ''}'' # rest"
  by (simp add: fallback_rankings_def comp_def del: json_dumps.simps(7))
    (simp add: comp_def)

lemma dict_single: "dict [(key, v)] = [(key, v)]"
  by (simp add: dict_def)

lemma scan_once_fallback:
  assumes "length resumes + 12 \<le> k"
  shows "scan_once k (json_dumps (fallback_rankings resumes) @ rest) =
           Inr (fallback_rankings resumes, rest)"
proof -
  from assms have "k = Suc (Suc (Suc (k - 3)))" and "length resumes + 9 \<le> k - 3"
    by arith+
  then obtain n where k: "k = Suc (Suc (Suc n))" and n: "length resumes + 9 \<le> n"
    by blast
  let ?ps = "enumerate 0 resumes"
  let ?items = "join_items (map (\<lambda>p. json_dumps (fallback_entry p)) ?ps)"
  have array: "scan_once (Suc n) (CHR ''['' # ?items @ CHR '']'' # CHR ''}'' # rest) =
      Inr (JArray (map fallback_entry ?ps), CHR ''}'' # rest)"
  proof (cases resumes)
    case Nil
    then show ?thesis by (simp add: skip_ws_Cons is_ws_def)
  next
    case (Cons r rs)
    then have nonempty: "?ps \<noteq> []" by simp
    obtain q qs where ps: "?ps = q # qs" using nonempty by (cases ?ps) auto
    obtain cs where head: "json_dumps (fallback_entry q) = CHR ''{'' # cs"
      using dumps_entry_head by blast
    obtain ts where items: "?items @ CHR '']'' # CHR ''}'' # rest = CHR ''{'' # ts"
      using head by (cases qs) (simp_all add: ps)
    from n have "length ?ps + 9 \<le> n" by simp
    with nonempty
    have "JSONArray n (?items @ CHR '']'' # CHR ''}'' # rest) =
        Inr (map fallback_entry ?ps, CHR ''}'' # rest)"
      by (rule JSONArray_entries)
    then have "JSONArray n (CHR ''{'' # ts) = Inr (map fallback_entry ?ps, CHR ''}'' # rest)"
      by (simp only: items)
    then have "scan_once (Suc n) (CHR ''['' # CHR ''{'' # ts) =
        Inr (JArray (map fallback_entry ?ps), CHR ''}'' # rest)"
      by (rule scan_once_array) (simp_all add: is_ws_def)
    then show ?thesis by (simp only: items)
  qed
  show ?thesis
    unfolding dumps_fallback k
    by (simp add: scan_once_object_step JSONObject_key skip_ws_bracket skip_ws_close array
        dict_single fallback_rankings_def
        del: scan_once.simps JSONObject.simps JSONArray.simps)
qed

lemma length_join_items:
  "(\<And>x. x \<in> set xs \<Longrightarrow> x \<noteq> []) \<Longrightarrow> length xs \<le> length (join_items xs)"
proof (induction xs rule: join_items.induct)
  case 1
  show ?case by simp
next
  case (2 x)
  then have "x \<noteq> []" by simp
  then show ?case by (cases x) simp_all
next
  case (3 x y zs)
  then have "length (y # zs) \<le> length (join_items (y # zs))" by simp
  then show ?case by simp
qed

lemma length_dumps_fallback:
  "length resumes + 16 \<le> length (json_dumps (fallback_rankings resumes))"
proof -
  let ?xs = "map (\<lambda>p. json_dumps (fallback_entry p)) (enumerate 0 resumes)"
  have "\<And>x. x \<in> set ?xs \<Longrightarrow> x \<noteq> []"
  proof -
    fix x
    assume "x \<in> set ?xs"
    then obtain p where "x = json_dumps (fallback_entry p)" by auto
    with dumps_entry_head [of p] show "x \<noteq> []" by auto
  qed
  then have "length ?xs \<le> length (join_items ?xs)" by (rule length_join_items)
  then have "length resumes \<le> length (join_items ?xs)" by simp
  moreover have "length (json_dumps (fallback_rankings resumes)) =
      16 + length (join_items ?xs)"
    using dumps_fallback [of resumes "[]"]
    by (simp add: encode_string_def escape_char_def del: json_dumps.simps)
  ultimately show ?thesis by simp
qed

lemma json_loads_dumps_fallback:
  "json_loads (json_dumps (fallback_rankings resumes)) = Inr (fallback_rankings resumes)"
proof -
  let ?text = "json_dumps (fallback_rankings resumes)"
  have start: "skip_ws ?text = ?text"
    using dumps_fallback [of resumes "[]"]
    by (simp add: skip_ws_Cons is_ws_def del: json_dumps.simps)
  have "length resumes + 12 \<le> 2 * length ?text + 2"
    using length_dumps_fallback [of resumes] by simp
  then have "scan_once (2 * length ?text + 2) (?text @ []) = Inr (fallback_rankings resumes, [])"
    by (rule scan_once_fallback)
  moreover have "skip_ws [] = []" by (simp add: skip_ws_def)
  ultimately show ?thesis
    by (simp add: json_loads_def start del: json_dumps.simps scan_once.simps)
qed

lemma normalize_on_decode_error:
  assumes "loads response = Inl JSONDecodeError"
    and "i < length response" and "response ! i = CHR ''{''"
    and "CHR ''{'' \<notin> set (take i response)"
    and "j < length response" and "response ! j = CHR ''}''"
    and "CHR ''}'' \<notin> set (drop (Suc j) response)"
    and "i < j"
  shows "normalize loads response resumes =
           (case loads (take (Suc j - i) (drop i response)) of
              Inr v \<Rightarrow> if validation_fails v then Inr (fallback_rankings resumes) else Inr v
            | Inl e \<Rightarrow> Inr (fallback_rankings resumes))"
proof -
  from assms have first: "str_find response (CHR ''{'') = int i"
    by (simp add: str_find_first)
  from assms have last: "str_rfind response (CHR ''}'') = int j"
    by (simp add: str_rfind_last)
  have "response ! i \<in> set response" using assms(2) by (rule nth_mem)
  moreover have "response ! j \<in> set response" using assms(5) by (rule nth_mem)
  ultimately have found: "braces_found response"
    using assms(3) assms(6) by (simp add: braces_found_def)
  from assms have "brace_substring response = take (Suc j - i) (drop i response)"
    by (simp add: brace_substring_def first last str_slice_nat)
  with assms(1) found show ?thesis
    by (auto simp: normalize_def parse_response_def extract_json_cases valid_fallback
        split: sum.splits)
qed

section \<open>The properties\<close>

subsection \<open>C1: cardinality of the result\<close>

text \<open>
  C1 as stated: for every resume list of size \<open>N\<close> and every response, the returned
  result has exactly \<open>N\<close> rankings. It fails on a response that is itself a well-formed
  ranking document with another number of entries: the parsed dictionary passes the
  validation and is returned as it is. One resume, no entry:
\<close>

theorem cardinality_counterexample:
  \<open>normalize json_loads ''{"rankings": []}'' [resume_a] = Inr (JObject [(''rankings'', JArray [])]) \<and>
   ranking_count (normalize json_loads ''{"rankings": []}'' [resume_a]) = Some 0 \<and>
   length [resume_a] = 1\<close>
  by code_simp

text \<open>
  C1, amended: for every resume list of size \<open>N\<close> and every response, the normalizer
  returns either the fallback result, whose \<^verbatim>\<open>rankings\<close> has exactly \<open>N\<close> entries, or
  a dictionary with a \<^verbatim>\<open>rankings\<close> key that the parser produced from the response or
  from its brace substring, unchanged and with whatever entries it carries.
\<close>

theorem normalize_cardinality:
  "(normalize loads response resumes = Inr (fallback_rankings resumes) \<and>
      ranking_count (normalize loads response resumes) = Some (length resumes))
   \<or> (\<exists>v. normalize loads response resumes = Inr v \<and> \<not> validation_fails v \<and>
         (loads response = Inr v \<or>
          loads response = Inl JSONDecodeError \<and> braces_found response \<and>
            loads (brace_substring response) = Inr v))"
proof (cases "fallback_triggered loads response")
  case True
  then have "normalize loads response resumes = Inr (fallback_rankings resumes)"
    by (simp add: normalize_cases)
  moreover have "ranking_count (Inr (fallback_rankings resumes)) = Some (length resumes)"
    by (simp add: ranking_count_def fallback_rankings_def)
  ultimately show ?thesis by simp
next
  case False
  then show ?thesis
    by (auto simp: normalize_cases fallback_triggered_def split: sum.splits exn.splits if_splits)
qed

theorem normalize_cardinality_witness:
  "ranking_count (normalize json_loads ''I cannot rank these resumes.'' [resume_a, resume_b]) = Some 2"
proof -
  have not_parsed: "json_loads ''I cannot rank these resumes.'' = Inl JSONDecodeError"
    by code_simp
  have no_braces: "\<not> braces_found ''I cannot rank these resumes.''"
    by code_simp
  from normalize_cardinality [of json_loads "''I cannot rank these resumes.''" "[resume_a, resume_b]"]
  show ?thesis using not_parsed no_braces by auto
qed

subsection \<open>C2: no failure leaves the normalizer\<close>

text \<open>
  C2: for every response and every resume list the normalizer returns (it raises nothing),
  and what it returns is a dictionary with the key \<^verbatim>\<open>rankings\<close>; so does
  \<^verbatim>\<open>process_bulk_resumes\<close> on every non-empty list of uploaded files.
\<close>

theorem normalize_never_raises:
  "(\<exists>kvs. normalize loads response resumes = Inr (JObject kvs) \<and>
      ''rankings'' \<in> fst ` set kvs) \<and>
   (files \<noteq> [] \<longrightarrow>
      (\<exists>kvs. process_bulk_resumes generate_content loads job_description files =
               Inr (Some (JObject kvs)) \<and>
             ''rankings'' \<in> fst ` set kvs))"
proof (intro conjI impI)
  show "\<exists>kvs. normalize loads response resumes = Inr (JObject kvs) \<and>
      ''rankings'' \<in> fst ` set kvs"
    by (rule normalize_returns_dict)
next
  assume "files \<noteq> []"
  then have nonempty: "all_resumes files \<noteq> []"
    by (simp add: all_resumes_map)
  let ?response = "get_gemini_response generate_content
      (combined_prompt job_description (all_resumes files)) [] prompts_rank"
  from normalize_returns_dict [of loads ?response "all_resumes files"]
  obtain kvs where "normalize loads ?response (all_resumes files) = Inr (JObject kvs)"
    and "''rankings'' \<in> fst ` set kvs"
    by blast
  with nonempty
  show "\<exists>kvs. process_bulk_resumes generate_content loads job_description files =
               Inr (Some (JObject kvs)) \<and>
             ''rankings'' \<in> fst ` set kvs"
    by (simp add: process_bulk_resumes_def Let_def)
qed

theorem normalize_never_raises_witness:
  "(\<exists>kvs. normalize json_loads ''I cannot rank these resumes.'' [resume_a] = Inr (JObject kvs) \<and>
      ''rankings'' \<in> fst ` set kvs) \<and>
   (\<exists>kvs. process_bulk_resumes (\<lambda>parts. NoText) json_loads ''Engineer'' [file_a] =
            Inr (Some (JObject kvs)) \<and>
          ''rankings'' \<in> fst ` set kvs)"
proof -
  have "[file_a] \<noteq> []" by simp
  with normalize_never_raises [of json_loads "''I cannot rank these resumes.''" "[resume_a]"
      "[file_a]" "\<lambda>parts. NoText" "''Engineer''"]
  show ?thesis by blast
qed

subsection \<open>C3: the fallback result\<close>

text \<open>
  C3: whenever the fallback is triggered, the result has one entry per input resume, in
  input order; entry \<open>i\<close> carries the name of resume \<open>i\<close>, match percentage 0, rank
  \<open>i + 1\<close> and the two fixed one-element lists.
\<close>

theorem fallback_synthesis:
  assumes "fallback_triggered loads response"
  shows "\<exists>entries.
           normalize loads response resumes = Inr (JObject [(''rankings'', JArray entries)]) \<and>
           length entries = length resumes \<and>
           (\<forall>i<length resumes.
              entries ! i =
                JObject
                  [(''resume_name'', JString (name (resumes ! i))),
                   (''match_percentage'', JInt 0),
                   (''rank'', JInt (int i + 1)),
                   (''strengths'', JArray [JString ''Unable to analyze strengths'']),
                   (''gaps'', JArray [JString ''Unable to analyze gaps''])])"
proof -
  let ?entries = "map fallback_entry (enumerate 0 resumes)"
  have "normalize loads response resumes = Inr (JObject [(''rankings'', JArray ?entries)])"
    using assms by (simp add: normalize_cases fallback_rankings_def)
  moreover have "length ?entries = length resumes" by simp
  ultimately show ?thesis using fallback_entries by blast
qed

text \<open>
  For the resumes a, b, c and a response that is no JSON the ranks are 1, 2, 3 in that
  order.
\<close>

theorem fallback_synthesis_witness:
  "fallback_triggered json_loads ''I cannot rank these resumes.'' \<and>
   normalize json_loads ''I cannot rank these resumes.'' [resume_a, resume_b, resume_c] =
     Inr (JObject
       [(''rankings'',
         JArray
           [JObject
              [(''resume_name'', JString ''a.pdf''), (''match_percentage'', JInt 0),
               (''rank'', JInt 1),
               (''strengths'', JArray [JString ''Unable to analyze strengths'']),
               (''gaps'', JArray [JString ''Unable to analyze gaps''])],
            JObject
              [(''resume_name'', JString ''b.pdf''), (''match_percentage'', JInt 0),
               (''rank'', JInt 2),
               (''strengths'', JArray [JString ''Unable to analyze strengths'']),
               (''gaps'', JArray [JString ''Unable to analyze gaps''])],
            JObject
              [(''resume_name'', JString ''c.pdf''), (''match_percentage'', JInt 0),
               (''rank'', JInt 3),
               (''strengths'', JArray [JString ''Unable to analyze strengths'']),
               (''gaps'', JArray [JString ''Unable to analyze gaps''])]])])"
proof -
  have trig: "fallback_triggered json_loads ''I cannot rank these resumes.''"
    by code_simp
  from fallback_synthesis [OF trig, of "[resume_a, resume_b, resume_c]"]
  obtain entries where
    res: "normalize json_loads ''I cannot rank these resumes.'' [resume_a, resume_b, resume_c] =
            Inr (JObject [(''rankings'', JArray entries)])"
    and len: "length entries = 3"
    and nth: "\<forall>i<3. entries ! i =
                JObject
                  [(''resume_name'', JString (name ([resume_a, resume_b, resume_c] ! i))),
                   (''match_percentage'', JInt 0),
                   (''rank'', JInt (int i + 1)),
                   (''strengths'', JArray [JString ''Unable to analyze strengths'']),
                   (''gaps'', JArray [JString ''Unable to analyze gaps''])]"
    by auto
  from len obtain e0 e1 e2 where es: "entries = [e0, e1, e2]"
    by (auto simp: length_Suc_conv numeral_3_eq_3)
  from nth have "entries ! 0 = JObject
                  [(''resume_name'', JString (name ([resume_a, resume_b, resume_c] ! 0))),
                   (''match_percentage'', JInt 0),
                   (''rank'', JInt (int 0 + 1)),
                   (''strengths'', JArray [JString ''Unable to analyze strengths'']),
                   (''gaps'', JArray [JString ''Unable to analyze gaps''])]"
    by simp
  moreover from nth have "entries ! 1 = JObject
                  [(''resume_name'', JString (name ([resume_a, resume_b, resume_c] ! 1))),
                   (''match_percentage'', JInt 0),
                   (''rank'', JInt (int 1 + 1)),
                   (''strengths'', JArray [JString ''Unable to analyze strengths'']),
                   (''gaps'', JArray [JString ''Unable to analyze gaps''])]"
    by simp
  moreover from nth have "entries ! 2 = JObject
                  [(''resume_name'', JString (name ([resume_a, resume_b, resume_c] ! 2))),
                   (''match_percentage'', JInt 0),
                   (''rank'', JInt (int 2 + 1)),
                   (''strengths'', JArray [JString ''Unable to analyze strengths'']),
                   (''gaps'', JArray [JString ''Unable to analyze gaps''])]"
    by simp
  ultimately show ?thesis using trig res es
    by (simp add: resume_a_def resume_b_def resume_c_def)
qed

subsection \<open>C4: the order of the fallback chain\<close>

text \<open>
  C4 as stated: substring extraction is attempted whenever the direct parse does not
  produce a valid value, also when the response parses but the value fails the
  validation. The source enters the extraction only in the handler of
  \<^verbatim>\<open>json.JSONDecodeError\<close>. The response below parses to a list, which fails the
  validation; its brace substring parses to a valid dictionary; the result is the
  fallback and not that dictionary.
\<close>

theorem direct_parse_invalid_counterexample:
  \<open>json_loads ''[{"rankings": []}]'' = Inr (JArray [JObject [(''rankings'', JArray [])]]) \<and>
   validation_fails (JArray [JObject [(''rankings'', JArray [])]]) \<and>
   braces_found ''[{"rankings": []}]'' \<and>
   json_loads (brace_substring ''[{"rankings": []}]'') = Inr (JObject [(''rankings'', JArray [])]) \<and>
   \<not> validation_fails (JObject [(''rankings'', JArray [])]) \<and>
   normalize json_loads ''[{"rankings": []}]'' [resume_a] = Inr (fallback_rankings [resume_a]) \<and>
   fallback_rankings [resume_a] \<noteq> JObject [(''rankings'', JArray [])]\<close>
  by code_simp

text \<open>
  C4, amended: substring extraction is attempted exactly when the direct parse raises a
  decode error; then the result is the value parsed from the brace substring if both
  braces exist and that value passes the validation, and the fallback otherwise. When the
  direct parse yields a value, that value is returned if it passes the validation and the
  fallback is returned otherwise, with no substring extraction. When the direct parse
  raises any other exception the result is the fallback.
\<close>

theorem fallback_chain_order:
  "(loads response = Inl JSONDecodeError \<longrightarrow>
      normalize loads response resumes =
        (if braces_found response then
           (case loads (brace_substring response) of
              Inr v \<Rightarrow> if validation_fails v then Inr (fallback_rankings resumes) else Inr v
            | Inl e \<Rightarrow> Inr (fallback_rankings resumes))
         else Inr (fallback_rankings resumes)))
   \<and> (\<forall>v. loads response = Inr v \<longrightarrow>
      normalize loads response resumes =
        (if validation_fails v then Inr (fallback_rankings resumes) else Inr v))
   \<and> (loads response = Inl OtherException \<longrightarrow>
      normalize loads response resumes = Inr (fallback_rankings resumes))"
  by (auto simp: normalize_def parse_response_def extract_json_cases valid_fallback
      split: sum.splits)

theorem fallback_chain_order_witness:
  \<open>normalize json_loads ''[{"rankings": []}]'' [resume_a] = Inr (fallback_rankings [resume_a]) \<and>
   normalize json_loads example_response [resume_a] = Inr example_rankings\<close>
proof -
  have parsed: \<open>json_loads ''[{"rankings": []}]'' = Inr (JArray [JObject [(''rankings'', JArray [])]])\<close>
    by code_simp
  have invalid: "validation_fails (JArray [JObject [(''rankings'', JArray [])]])"
    by code_simp
  have decode: "json_loads example_response = Inl JSONDecodeError"
    by code_simp
  have braces: "braces_found example_response"
    by code_simp
  have sub: "json_loads (brace_substring example_response) = Inr example_rankings"
    by code_simp
  have valid: "\<not> validation_fails example_rankings"
    by code_simp
  note chain1 = fallback_chain_order [of json_loads \<open>''[{"rankings": []}]''\<close> "[resume_a]"]
  note chain2 = fallback_chain_order [of json_loads example_response "[resume_a]"]
  from chain1 parsed invalid
  have "normalize json_loads ''[{\"rankings\": []}]'' [resume_a] = Inr (fallback_rankings [resume_a])"
    by simp
  moreover from chain2 decode braces sub valid
  have "normalize json_loads example_response [resume_a] = Inr example_rankings"
    by simp
  ultimately show ?thesis by simp
qed

subsection \<open>C5: the validation\<close>

text \<open>
  C5 as stated: a value whose \<^verbatim>\<open>rankings\<close> is present but no sequence is invalid. The
  source tests the type of the value and the presence of the key only: the response
  below, whose \<^verbatim>\<open>rankings\<close> is a number, passes and is returned.
\<close>

theorem validation_counterexample:
  \<open>\<not> validation_fails (JObject [(''rankings'', JInt 5)]) \<and>
   normalize json_loads ''{"rankings": 5}'' [resume_a] = Inr (JObject [(''rankings'', JInt 5)])\<close>
  by code_simp

text \<open>
  C5, amended: the validation accepts a value if and only if it is a dictionary that has
  the key \<^verbatim>\<open>rankings\<close>, whatever is stored under that key and under the others.
\<close>

theorem validation_structural:
  "(\<not> validation_fails v) = (\<exists>kvs. v = JObject kvs \<and> ''rankings'' \<in> fst ` set kvs)"
  by (cases v) (auto simp: validation_fails_def)

theorem validation_structural_witness:
  "\<not> validation_fails (JObject [(''rankings'', JArray [JInt 7, JNull])]) \<and>
   validation_fails (JArray [JObject [(''rankings'', JArray [])]])"
proof -
  have "\<exists>kvs. JObject [(''rankings'', JArray [JInt 7, JNull])] = JObject kvs \<and>
          ''rankings'' \<in> fst ` set kvs"
    by simp
  then have "\<not> validation_fails (JObject [(''rankings'', JArray [JInt 7, JNull])])"
    by (simp only: validation_structural)
  moreover have "\<not> (\<exists>kvs. JArray [JObject [(''rankings'', JArray [])]] = JObject kvs \<and>
          ''rankings'' \<in> fst ` set kvs)"
    by simp
  then have "validation_fails (JArray [JObject [(''rankings'', JArray [])]])"
    using validation_structural [of "JArray [JObject [(''rankings'', JArray [])]]"] by blast
  ultimately show ?thesis by simp
qed

subsection \<open>C6: a well-formed response is returned unchanged\<close>

text \<open>
  C6: when the response parses directly to a dictionary whose \<^verbatim>\<open>rankings\<close> is a
  sequence, the normalizer returns that dictionary unchanged.
\<close>

theorem normalize_identity:
  assumes "loads response = Inr (JObject kvs)"
    and "map_of kvs ''rankings'' = Some (JArray entries)"
  shows "normalize loads response resumes = Inr (JObject kvs)"
proof -
  from assms(2) have "''rankings'' \<in> fst ` set kvs"
    by (metis domI dom_map_of_conv_image_fst)
  then have "\<not> validation_fails (JObject kvs)"
    by (simp add: validation_fails_def)
  with assms(1) show ?thesis
    by (simp add: normalize_def parse_response_def)
qed

theorem normalize_identity_witness:
  "normalize json_loads (brace_substring example_response) [resume_a, resume_b] = Inr example_rankings"
proof -
  have parsed: "json_loads (brace_substring example_response) =
      Inr (JObject
       [(''rankings'',
         JArray
           [JObject
              [(''resume_name'', JString ''a.pdf''),
               (''match_percentage'', JInt 85),
               (''rank'', JInt 1),
               (''strengths'', JArray [JString ''skill1'', JString ''skill2'']),
               (''gaps'', JArray [JString ''gap1'', JString ''gap2''])]])])"
    by code_simp
  have key: "map_of
       [(''rankings'',
         JArray
           [JObject
              [(''resume_name'', JString ''a.pdf''),
               (''match_percentage'', JInt 85),
               (''rank'', JInt 1),
               (''strengths'', JArray [JString ''skill1'', JString ''skill2'']),
               (''gaps'', JArray [JString ''gap1'', JString ''gap2''])]])] ''rankings'' =
     Some (JArray
           [JObject
              [(''resume_name'', JString ''a.pdf''),
               (''match_percentage'', JInt 85),
               (''rank'', JInt 1),
               (''strengths'', JArray [JString ''skill1'', JString ''skill2'']),
               (''gaps'', JArray [JString ''gap1'', JString ''gap2''])]])"
    by simp
  from parsed key
  have "normalize json_loads (brace_substring example_response) [resume_a, resume_b] =
      Inr (JObject
       [(''rankings'',
         JArray
           [JObject
              [(''resume_name'', JString ''a.pdf''),
               (''match_percentage'', JInt 85),
               (''rank'', JInt 1),
               (''strengths'', JArray [JString ''skill1'', JString ''skill2'']),
               (''gaps'', JArray [JString ''gap1'', JString ''gap2''])]])])"
    by (rule normalize_identity)
  then show ?thesis by (simp add: example_rankings_def)
qed

subsection \<open>C7: substring extraction\<close>

text \<open>
  C7 as stated: when the direct parse fails (by the specification: it yields no value
  that passes the validation), the normalizer parses the substring from the first opening
  brace to the last closing brace and succeeds if that parse passes the validation. The
  source does so only in the handler of \<^verbatim>\<open>json.JSONDecodeError\<close>. In the response below the
  first opening brace is at 1, the last closing brace at 16, the direct parse yields a
  list, which fails the validation, and the substring parses to a dictionary that passes
  it; the result is the fallback and not that dictionary.
\<close>

theorem substring_extraction_counterexample:
  \<open>1 < length ''[{"rankings": []}]'' \<and>
   ''[{"rankings": []}]'' ! 1 = CHR ''{'' \<and>
   CHR ''{'' \<notin> set (take 1 ''[{"rankings": []}]'') \<and>
   16 < length ''[{"rankings": []}]'' \<and>
   ''[{"rankings": []}]'' ! 16 = CHR ''}'' \<and>
   CHR ''}'' \<notin> set (drop (Suc 16) ''[{"rankings": []}]'') \<and>
   json_loads ''[{"rankings": []}]'' = Inr (JArray [JObject [(''rankings'', JArray [])]]) \<and>
   validation_fails (JArray [JObject [(''rankings'', JArray [])]]) \<and>
   json_loads (take (Suc 16 - 1) (drop 1 ''[{"rankings": []}]'')) =
     Inr (JObject [(''rankings'', JArray [])]) \<and>
   \<not> validation_fails (JObject [(''rankings'', JArray [])]) \<and>
   normalize json_loads ''[{"rankings": []}]'' [resume_a] = Inr (fallback_rankings [resume_a]) \<and>
   normalize json_loads ''[{"rankings": []}]'' [resume_a] \<noteq>
     Inr (JObject [(''rankings'', JArray [])])\<close>
  by code_simp

text \<open>
  C7, amended: substring extraction is performed when, and only when, the direct parse
  raises a decode error. Then, with the first opening brace at \<open>i\<close>, the last closing
  brace at \<open>j\<close> and \<open>i < j\<close>, the normalizer parses the inclusive substring from \<open>i\<close>
  to \<open>j\<close>; it returns the parsed value if there is one and it passes the validation,
  and the fallback otherwise. When the direct parse yields a value there is no substring
  extraction: the value is returned if it passes the validation, the fallback otherwise.
  When the parser raises another exception the fallback is returned.
\<close>

theorem substring_extraction:
  "(loads response = Inl JSONDecodeError \<and>
    i < length response \<and> response ! i = CHR ''{'' \<and> CHR ''{'' \<notin> set (take i response) \<and>
    j < length response \<and> response ! j = CHR ''}'' \<and>
    CHR ''}'' \<notin> set (drop (Suc j) response) \<and> i < j \<longrightarrow>
      normalize loads response resumes =
        (case loads (take (Suc j - i) (drop i response)) of
           Inr v \<Rightarrow> if validation_fails v then Inr (fallback_rankings resumes) else Inr v
         | Inl e \<Rightarrow> Inr (fallback_rankings resumes)))
   \<and> (\<forall>v. loads response = Inr v \<longrightarrow>
      normalize loads response resumes =
        (if validation_fails v then Inr (fallback_rankings resumes) else Inr v))
   \<and> (loads response = Inl OtherException \<longrightarrow>
      normalize loads response resumes = Inr (fallback_rankings resumes))"
proof (intro conjI impI allI)
  assume "loads response = Inl JSONDecodeError \<and>
    i < length response \<and> response ! i = CHR ''{'' \<and> CHR ''{'' \<notin> set (take i response) \<and>
    j < length response \<and> response ! j = CHR ''}'' \<and>
    CHR ''}'' \<notin> set (drop (Suc j) response) \<and> i < j"
  then show "normalize loads response resumes =
        (case loads (take (Suc j - i) (drop i response)) of
           Inr v \<Rightarrow> if validation_fails v then Inr (fallback_rankings resumes) else Inr v
         | Inl e \<Rightarrow> Inr (fallback_rankings resumes))"
    by (intro normalize_on_decode_error) simp_all
next
  fix v
  assume "loads response = Inr v"
  then show "normalize loads response resumes =
        (if validation_fails v then Inr (fallback_rankings resumes) else Inr v)"
    by (simp add: normalize_def parse_response_def)
next
  assume "loads response = Inl OtherException"
  then show "normalize loads response resumes = Inr (fallback_rankings resumes)"
    by (simp add: normalize_def parse_response_def)
qed

text \<open>
  The example of the specification: the direct parse raises a decode error, the embedded
  ranking is recovered exactly and the prose around it is ignored. A response that parses
  to a list gives the fallback, and so does a parser that raises another exception.
\<close>

theorem substring_extraction_witness:
  \<open>normalize json_loads example_response [resume_a] = Inr example_rankings \<and>
   normalize json_loads ''[{"rankings": []}]'' [resume_a] = Inr (fallback_rankings [resume_a]) \<and>
   normalize (\<lambda>s. Inl OtherException) example_response [resume_a] =
     Inr (fallback_rankings [resume_a])\<close>
proof -
  have decode: "json_loads example_response = Inl JSONDecodeError"
    by code_simp
  have i: "20 < length example_response" "example_response ! 20 = CHR ''{''"
    "CHR ''{'' \<notin> set (take 20 example_response)"
    by code_simp+
  have j: "155 < length example_response" "example_response ! 155 = CHR ''}''"
    "CHR ''}'' \<notin> set (drop (Suc 155) example_response)"
    by code_simp+
  have order: "(20::nat) < 155"
    by simp
  have sub: "json_loads (take (Suc 155 - 20) (drop 20 example_response)) = Inr example_rankings"
    by code_simp
  have valid: "\<not> validation_fails example_rankings"
    by code_simp
  have parsed: \<open>json_loads ''[{"rankings": []}]'' = Inr (JArray [JObject [(''rankings'', JArray [])]])\<close>
    by code_simp
  have invalid: "validation_fails (JArray [JObject [(''rankings'', JArray [])]])"
    by code_simp
  note on_example = substring_extraction [of json_loads example_response 20 155 "[resume_a]"]
  note on_list = substring_extraction [of json_loads \<open>''[{"rankings": []}]''\<close> 20 155 "[resume_a]"]
  note on_other = substring_extraction [of "\<lambda>s. Inl OtherException" example_response 20 155
      "[resume_a]"]
  from on_example decode i j order
  have "normalize json_loads example_response [resume_a] =
           (case json_loads (take (Suc 155 - 20) (drop 20 example_response)) of
              Inr v \<Rightarrow> if validation_fails v then Inr (fallback_rankings [resume_a]) else Inr v
            | Inl e \<Rightarrow> Inr (fallback_rankings [resume_a]))"
    by blast
  with sub valid
  have first: "normalize json_loads example_response [resume_a] = Inr example_rankings"
    by simp
  from on_list parsed invalid
  have second: "normalize json_loads ''[{\"rankings\": []}]'' [resume_a] =
      Inr (fallback_rankings [resume_a])"
    by simp
  from on_other
  have third: "normalize (\<lambda>s. Inl OtherException) example_response [resume_a] =
      Inr (fallback_rankings [resume_a])"
    by simp
  from first second third show ?thesis by simp
qed

subsection \<open>C8: the fallback result is a fixed point\<close>

text \<open>
  C8: for every resume list, the normalizer run on the serialized fallback result of that
  list (with the same list) returns the fallback result again; and for every parser, the
  same holds on every text that the parser reads back as the fallback result.
\<close>

theorem normalize_fallback_idempotent:
  "normalize json_loads (json_dumps (fallback_rankings resumes)) resumes =
     Inr (fallback_rankings resumes) \<and>
   (loads text = Inr (fallback_rankings resumes) \<longrightarrow>
      normalize loads text resumes = Inr (fallback_rankings resumes))"
proof
  show "normalize json_loads (json_dumps (fallback_rankings resumes)) resumes =
      Inr (fallback_rankings resumes)"
    by (simp add: normalize_def parse_response_def json_loads_dumps_fallback valid_fallback
        del: json_dumps.simps)
next
  show "loads text = Inr (fallback_rankings resumes) \<longrightarrow>
      normalize loads text resumes = Inr (fallback_rankings resumes)"
    by (simp add: normalize_def parse_response_def valid_fallback)
qed

text \<open>
  Two resumes: a response that is no JSON gives the fallback result, its serialization is
  the text \<^verbatim>\<open>json.dumps\<close> writes, and the normalizer maps that text to the same result.
\<close>

theorem normalize_fallback_idempotent_witness:
  "normalize json_loads ''I cannot rank these resumes.'' [resume_a, resume_b] =
     Inr (fallback_rankings [resume_a, resume_b]) \<and>
   json_dumps (fallback_rankings [resume_a, resume_b]) = serialized_fallback \<and>
   normalize json_loads serialized_fallback [resume_a, resume_b] =
     Inr (fallback_rankings [resume_a, resume_b])"
proof -
  have first: "normalize json_loads ''I cannot rank these resumes.'' [resume_a, resume_b] =
     Inr (fallback_rankings [resume_a, resume_b])"
    by code_simp
  have dumped: "json_dumps (fallback_rankings [resume_a, resume_b]) = serialized_fallback"
    by code_simp
  have reparsed: "json_loads serialized_fallback = Inr (fallback_rankings [resume_a, resume_b])"
    by code_simp
  note fixed = normalize_fallback_idempotent [of "[resume_a, resume_b]" json_loads
      serialized_fallback]
  from fixed reparsed
  have "normalize json_loads serialized_fallback [resume_a, resume_b] =
     Inr (fallback_rankings [resume_a, resume_b])"
    by blast
  with first dumped show ?thesis by simp
qed

subsection \<open>C9: a file that cannot be read\<close>

text \<open>
  C9 says that a document whose extraction fails is skipped. The loop of
  \<^verbatim>\<open>process_bulk_resumes\<close> has the handler that would skip it, but
  \<^verbatim>\<open>extract_text_from_pdf\<close> has already turned the failure into the empty string: of
  three files with an unreadable second one, all three reach the ranking, and a single
  unreadable file is ranked instead of giving the absent result.
\<close>

theorem failed_extraction_kept:
  "all_resumes [file_a, file_b, file_c] =
     [\<lparr>name = ''a.pdf'', content = ''alpha''\<rparr>,
      \<lparr>name = ''b.pdf'', content = []\<rparr>,
      \<lparr>name = ''c.pdf'', content = ''gamma''\<rparr>] \<and>
   process_bulk_resumes (\<lambda>parts. NoText) json_loads ''Engineer'' [file_b] =
     Inr (Some (fallback_rankings [\<lparr>name = ''b.pdf'', content = []\<rparr>]))"
  by code_simp

subsection \<open>C10: every file contributes a record\<close>

text \<open>
  C10: \<^verbatim>\<open>extract_text_from_pdf\<close> always returns, with the empty string when the
  extraction raised; every uploaded file contributes exactly one record, which carries
  its name; and \<^verbatim>\<open>process_bulk_resumes\<close> returns \<^verbatim>\<open>None\<close> exactly when no file was
  uploaded.
\<close>

theorem every_file_contributes:
  "(\<exists>text. extract_text_from_pdf file = Inr text) \<and>
   (\<forall>e. fitz_text file = Inl e \<longrightarrow> extract_text_from_pdf file = Inr []) \<and>
   map name (all_resumes files) = map file_name files \<and>
   length (all_resumes files) = length files \<and>
   ((process_bulk_resumes generate_content loads job_description files = Inr None) = (files = []))"
proof -
  have "\<exists>text. extract_text_from_pdf file = Inr text"
    by (simp add: extract_text_from_pdf_def split: sum.splits)
  moreover have "\<forall>e. fitz_text file = Inl e \<longrightarrow> extract_text_from_pdf file = Inr []"
    by (simp add: extract_text_from_pdf_def)
  moreover have "map name (all_resumes files) = map file_name files"
    by (simp add: all_resumes_map comp_def)
  moreover have len: "length (all_resumes files) = length files"
    by (simp add: all_resumes_map)
  moreover have "(process_bulk_resumes generate_content loads job_description files = Inr None)
      = (files = [])"
  proof (cases files)
    case Nil
    then show ?thesis by (simp add: process_bulk_resumes_def)
  next
    case (Cons f fs)
    with len have "all_resumes files \<noteq> []" by auto
    then show ?thesis using Cons
      by (auto simp: process_bulk_resumes_def Let_def split: sum.splits)
  qed
  ultimately show ?thesis by blast
qed

theorem every_file_contributes_witness:
  "extract_text_from_pdf file_b = Inr [] \<and>
   map name (all_resumes [file_a, file_b, file_c]) = [''a.pdf'', ''b.pdf'', ''c.pdf''] \<and>
   length (all_resumes [file_a, file_b, file_c]) = 3 \<and>
   process_bulk_resumes (\<lambda>parts. NoText) json_loads ''Engineer'' [file_b] \<noteq> Inr None \<and>
   process_bulk_resumes (\<lambda>parts. NoText) json_loads ''Engineer'' [] = Inr None"
proof -
  have raised: "fitz_text file_b = Inl OtherException"
    by (simp add: file_b_def)
  note w1 = every_file_contributes [of file_b "[file_a, file_b, file_c]" "\<lambda>parts. NoText" json_loads "''Engineer''"]
  note w2 = every_file_contributes [of file_b "[file_b]" "\<lambda>parts. NoText" json_loads "''Engineer''"]
  note w3 = every_file_contributes [of file_b "[]" "\<lambda>parts. NoText" json_loads "''Engineer''"]
  from w1 raised have "extract_text_from_pdf file_b = Inr []" by blast
  moreover from w1 have "map name (all_resumes [file_a, file_b, file_c]) = [''a.pdf'', ''b.pdf'', ''c.pdf'']"
    by (simp add: file_a_def file_b_def file_c_def)
  moreover from w1 have "length (all_resumes [file_a, file_b, file_c]) = 3" by simp
  moreover from w2 have "process_bulk_resumes (\<lambda>parts. NoText) json_loads ''Engineer'' [file_b] \<noteq> Inr None"
    by simp
  moreover from w3 have "process_bulk_resumes (\<lambda>parts. NoText) json_loads ''Engineer'' [] = Inr None"
    by simp
  ultimately show ?thesis by simp
qed

end
